theory Spec2Isabelle
  imports Complex_Main "HOL-Library.Char_ord" "HOL-Library.List_Lexorder"
begin

chapter \<open>The model\<close>

section \<open>espoll: errors, readers and responses\<close>

text \<open>
  The package \<open>espoll\<close> (file \<open>pkg/espoll/query.go\<close>) wraps an Elasticsearch client
  and re-issues a request until a condition over the response holds or a deadline
  passes. Byte slices are modelled as strings (lists of bytes).

  A Go \<open>error\<close> value is one of: \<open>context.DeadlineExceeded\<close>; the \<open>*Error\<close> of this
  package with its \<open>StatusCode\<close> and \<open>Message\<close>; any other error value, identified
  by its text. The request, the body reader and the JSON decoder may return any of them.
\<close>

type_synonym bytes = string

datatype error = DeadlineExceeded | Error int string | OtherError string

text \<open>The method \<open>(e *Error) Error()\<close> returns the message.\<close>

fun Error_Error :: "error \<Rightarrow> string" where
  "Error_Error (Error code msg) = msg"
| "Error_Error DeadlineExceeded = ''context deadline exceeded''"
| "Error_Error (OtherError msg) = msg"

text \<open>
  An \<open>io.Reader\<close> that still holds some bytes and then ends with EOF (\<open>None\<close>) or with
  a read error. \<open>io.ReadAll\<close> returns the bytes read and the error, if any.
\<close>

datatype reader = Reader bytes "error option"

fun ReadAll :: "reader \<Rightarrow> bytes \<times> error option" where
  "ReadAll (Reader bs e) = (bs, e)"

text \<open>\<open>esapi.Response\<close>: the fields that \<open>Do\<close> reads and writes.\<close>

record Response =
  StatusCode :: int
  Body :: reader

text \<open>
  The \<open>esapi.Transport\<close> handed to the request: the client itself, or the client
  wrapped in \<open>&bodyRepeater{transport, nil}\<close>. The second field of the wrapper is
  the body it has captured so far.
\<close>

datatype transport = Client | bodyRepeater transport "bytes option"

text \<open>
  \<open>Request\<close> is an interface: \<open>req.Do(ctx, transport)\<close> is any function of the
  transport and of the state of the world \<open>'w\<close> (server, network, the context
  \<open>ctx\<close>, caller's variables).
  One call yields the pair \<open>(*esapi.Response, error)\<close>, the virtual time it took in
  nanoseconds, and the transport and world as the call left them.
\<close>

record 'w attempt =
  a_resp :: "Response option"
  a_err :: "error option"
  a_took :: nat
  a_transport :: transport
  a_world :: 'w

type_synonym 'w Request = "transport \<Rightarrow> 'w \<Rightarrow> 'w attempt"

text \<open>
  \<open>ConditionFunc\<close> is \<open>func(*esapi.Response) bool\<close>. A Go function may have side
  effects, so a condition also returns the world it leaves behind.
\<close>

type_synonym 'w ConditionFunc = "Response \<Rightarrow> 'w \<Rightarrow> bool \<times> 'w"

text \<open>
  \<open>requestOptions\<close>; durations are \<open>time.Duration\<close>, a count of nanoseconds, and
  \<open>cond\<close> is \<open>None\<close> for the nil function. The options \<open>WithTimeout\<close>,
  \<open>WithInterval\<close> and \<open>WithCondition\<close> each set one field.
\<close>

record 'w requestOptions =
  timeout :: int
  interval :: int
  cond :: "'w ConditionFunc option"

type_synonym 'w RequestOption = "'w requestOptions \<Rightarrow> 'w requestOptions"

definition WithTimeout :: "int \<Rightarrow> 'w RequestOption" where
  "WithTimeout d opts = opts\<lparr>timeout := d\<rparr>"

definition WithInterval :: "int \<Rightarrow> 'w RequestOption" where
  "WithInterval d opts = opts\<lparr>interval := d\<rparr>"

definition WithCondition :: "'w ConditionFunc option \<Rightarrow> 'w RequestOption" where
  "WithCondition c opts = opts\<lparr>cond := c\<rparr>"

text \<open>
  \<open>AllCondition\<close>: the loop over \<open>conds\<close> returns false at the first condition that
  returns false, and true after the last one.
\<close>

fun AllCondition :: "'w ConditionFunc list \<Rightarrow> 'w ConditionFunc" where
  "AllCondition [] resp w = (True, w)"
| "AllCondition (c # conds) resp w =
     (case c resp w of (b, w') \<Rightarrow> if \<not> b then (False, w') else AllCondition conds resp w')"

section \<open>The Go runtime and the libraries \<open>Do\<close> calls\<close>

text \<open>
  What \<open>Do\<close> uses from outside the package is a parameter: \<open>resp.IsError()\<close> and
  \<open>resp.String()\<close> of esapi, \<open>json.Unmarshal(body, out)\<close> (which returns the error
  and leaves the destination as far as it was filled), and the choice the Go
  \<open>select\<close> makes when both channels are ready (\<open>pick_timeout n\<close>: at the wait that
  follows attempt \<open>n\<close>, the timeout case is chosen).
\<close>

record 'o runtime =
  IsError :: "Response \<Rightarrow> bool"
  String :: "Response \<Rightarrow> string"
  Unmarshal :: "bytes \<Rightarrow> 'o \<Rightarrow> error option \<times> 'o"
  pick_timeout :: "nat \<Rightarrow> bool"

text \<open>
  A \<open>time.Ticker\<close>: its period, the time of its next tick, and whether a tick
  waits in its channel (the channel holds one tick; further ticks are dropped
  while it is full). \<open>time.NewTicker\<close> panics on a period that is not positive.
\<close>

record ticker =
  period :: int
  next_tick :: int
  full :: bool

definition NewTicker :: "int \<Rightarrow> int \<Rightarrow> ticker option" where
  "NewTicker d now =
     (if d \<le> 0 then None else Some \<lparr>period = d, next_tick = now + d, full = False\<rparr>)"

text \<open>The ticks that came due up to \<open>now\<close>: the first fills the channel, the rest are dropped.\<close>

definition advance :: "int \<Rightarrow> ticker \<Rightarrow> ticker" where
  "advance now tk =
     (if next_tick tk \<le> now
      then tk\<lparr>full := True,
              next_tick := next_tick tk + period tk * ((now - next_tick tk) div period tk + 1)\<rparr>
      else tk)"

datatype selected = Timeout | Tick

text \<open>
  \<open>select { case <-timeoutC: ... case <-tickerC: }\<close> at time \<open>now\<close>. \<open>timeoutC\<close> is
  \<open>None\<close> for the nil channel, which is never ready, and otherwise the time at which
  the timer fires. A case that is ready alone is taken; of two ready cases the runtime
  picks one; with none ready the goroutine sleeps until the earlier event. The result
  is the case taken, the time at which the select returns, and the ticker.
\<close>

definition select_chan :: "bool \<Rightarrow> int \<Rightarrow> int option \<Rightarrow> ticker \<Rightarrow> selected \<times> int \<times> ticker" where
  "select_chan pick now timeoutC tk0 =
     (let tk = advance now tk0;
          tick_now = (Tick, now, tk\<lparr>full := False\<rparr>);
          tick_later = (Tick, next_tick tk, tk\<lparr>next_tick := next_tick tk + period tk\<rparr>)
      in case timeoutC of
           None \<Rightarrow> if full tk then tick_now else tick_later
         | Some d \<Rightarrow>
             if full tk then (if d \<le> now \<and> pick then (Timeout, now, tk) else tick_now)
             else if d \<le> now then (Timeout, now, tk)
             else if d < next_tick tk then (Timeout, d, tk)
             else if next_tick tk < d then tick_later
             else if pick then (Timeout, d, tk) else tick_later)"

section \<open>\<open>Client.Do\<close>\<close>

text \<open>
  The local variables of \<open>Do\<close> that change while the loop runs, the virtual clock
  (nanoseconds since the call), the world, and a counter of the calls of \<open>req.Do\<close>
  made so far (a ghost variable: the source does not count).
\<close>

record ('o, 'w) state =
  clock :: int
  timeoutC :: "int option"
  tickerC :: "ticker option"
  transport :: transport
  out :: "'o option"
  world :: 'w
  attempts :: nat

text \<open>How a call ends: a return of \<open>(resp, err)\<close>, or a panic with its message.\<close>

datatype ('o, 'w) result =
  Return "Response option" "error option" "('o, 'w) state"
| Panic string "('o, 'w) state"

datatype ('o, 'w) step = Done "('o, 'w) result" | Again "('o, 'w) state"

text \<open>
  The top of the loop body: nothing happens while \<open>tickerC\<close> is nil; afterwards the
  select waits, and the timeout case returns \<open>(nil, context.DeadlineExceeded)\<close>.
\<close>

definition wait :: "'o runtime \<Rightarrow> ('o, 'w) state \<Rightarrow> ('o, 'w) step" where
  "wait rt s =
     (case tickerC s of
        None \<Rightarrow> Again s
      | Some tk \<Rightarrow>
          (case select_chan (pick_timeout rt (attempts s)) (clock s) (timeoutC s) tk of
             (Timeout, now, tk') \<Rightarrow>
               Done (Return None (Some DeadlineExceeded) (s\<lparr>clock := now, tickerC := Some tk'\<rparr>))
           | (Tick, now, tk') \<Rightarrow> Again (s\<lparr>clock := now, tickerC := Some tk'\<rparr>)))"

text \<open>\<open>if out != nil { json.Unmarshal(body, out) }\<close>\<close>

definition decode :: "'o runtime \<Rightarrow> bytes \<Rightarrow> 'o option \<Rightarrow> error option \<times> 'o option" where
  "decode rt body dst =
     (case dst of
        None \<Rightarrow> (None, None)
      | Some v \<Rightarrow> (case Unmarshal rt body v of (e, v') \<Rightarrow> (e, Some v')))"

text \<open>The state when \<open>req.Do(ctx, transport)\<close> has returned.\<close>

definition after_call :: "'w attempt \<Rightarrow> ('o, 'w) state \<Rightarrow> ('o, 'w) state" where
  "after_call a s =
     s\<lparr>clock := clock s + int (a_took a), transport := a_transport a,
       world := a_world a, attempts := Suc (attempts s)\<rparr>"

text \<open>
  The rest of the loop body, from \<open>req.Do(ctx, transport)\<close> to the start of the
  ticker. \<open>resp.Body.Close()\<close> on a nil response is a nil pointer dereference.
\<close>

definition attempt :: "'o runtime \<Rightarrow> 'w Request \<Rightarrow> 'w requestOptions \<Rightarrow> ('o, 'w) state \<Rightarrow> ('o, 'w) step" where
  "attempt rt req requestOptions s =
     (let a = req (transport s) (world s);
          s1 = after_call a s
      in case a_err a of
           Some err \<Rightarrow> Done (Return None (Some err) s1)
         | None \<Rightarrow>
            (case a_resp a of
               None \<Rightarrow> Done (Panic ''invalid memory address or nil pointer dereference'' s1)
             | Some resp \<Rightarrow>
                 if IsError rt resp
                 then Done (Return None (Some (Error (StatusCode resp) (String rt resp))) s1)
                 else (case ReadAll (Body resp) of
                    (body, Some err) \<Rightarrow> Done (Return None (Some err) s1)
                  | (body, None) \<Rightarrow>
                     (case decode rt body (out s1) of
                        (Some err, dst) \<Rightarrow> Done (Return None (Some err) (s1\<lparr>out := dst\<rparr>))
                      | (None, dst) \<Rightarrow>
                         (let s2 = s1\<lparr>out := dst\<rparr>;
                              resp' = resp\<lparr>Body := Reader body None\<rparr>
                          in case cond requestOptions of
                               None \<Rightarrow> Done (Return (Some resp') None s2)
                             | Some c \<Rightarrow>
                                (case c resp' (world s2) of (ok, w') \<Rightarrow>
                                   let s3 = s2\<lparr>world := w'\<rparr>
                                   in if ok then Done (Return (Some resp') None s3)
                                      else (case tickerC s3 of
                                         Some tk \<Rightarrow> Again s3
                                       | None \<Rightarrow>
                                          (case NewTicker (interval requestOptions) (clock s3) of
                                             None \<Rightarrow> Done (Panic ''non-positive interval for NewTicker'' s3)
                                           | Some tk \<Rightarrow> Again (s3\<lparr>tickerC := Some tk\<rparr>)))))))))"

definition iteration :: "'o runtime \<Rightarrow> 'w Request \<Rightarrow> 'w requestOptions \<Rightarrow> ('o, 'w) state \<Rightarrow> ('o, 'w) step" where
  "iteration rt req requestOptions s =
     (case wait rt s of Done r \<Rightarrow> Done r | Again s' \<Rightarrow> attempt rt req requestOptions s')"

text \<open>
  The \<open>for\<close> loop. It may run forever, so it runs on fuel, one unit for each
  pass; \<open>None\<close> says that the fuel ran out before the loop ended.
\<close>

fun loop :: "'o runtime \<Rightarrow> 'w Request \<Rightarrow> 'w requestOptions \<Rightarrow> nat \<Rightarrow> ('o, 'w) state \<Rightarrow> ('o, 'w) result option" where
  "loop rt req requestOptions 0 s = None"
| "loop rt req requestOptions (Suc fuel) s =
     (case iteration rt req requestOptions s of
        Done r \<Rightarrow> Some r
      | Again s' \<Rightarrow> loop rt req requestOptions fuel s')"

text \<open>The defaults (\<open>time.Minute\<close>, \<open>100 * time.Millisecond\<close>), then each option in turn.\<close>

definition resolve :: "'w RequestOption list \<Rightarrow> 'w requestOptions" where
  "resolve opts =
     fold (\<lambda>opt requestOptions. opt requestOptions) opts
       \<lparr>timeout = 60000000000, interval = 100000000, cond = None\<rparr>"

text \<open>
  The state in which the loop starts: with a condition the transport is wrapped,
  and the timer is armed if the timeout is positive (it fires at that time, the
  clock starting at 0).
\<close>

definition start :: "'w requestOptions \<Rightarrow> 'o option \<Rightarrow> 'w \<Rightarrow> ('o, 'w) state" where
  "start requestOptions dst w =
     \<lparr>clock = 0,
      timeoutC = (if cond requestOptions \<noteq> None \<and> timeout requestOptions > 0
                  then Some (timeout requestOptions) else None),
      tickerC = None,
      transport = (if cond requestOptions \<noteq> None then bodyRepeater Client None else Client),
      out = dst,
      world = w,
      attempts = 0\<rparr>"

definition Do :: "'o runtime \<Rightarrow> nat \<Rightarrow> 'w Request \<Rightarrow> 'o option \<Rightarrow> 'w RequestOption list \<Rightarrow> 'w \<Rightarrow> ('o, 'w) result option" where
  "Do rt fuel req dst opts w = loop rt req (resolve opts) fuel (start (resolve opts) dst w)"

text \<open>The state in which a call ended.\<close>

fun final :: "('o, 'w) result \<Rightarrow> ('o, 'w) state" where
  "final (Return r e s) = s"
| "final (Panic m s) = s"

text \<open>A condition without side effects, as the package's contract asks of conditions.\<close>

definition pure_cond :: "(Response \<Rightarrow> bool) \<Rightarrow> 'w ConditionFunc" where
  "pure_cond p resp w = (p resp, w)"

section \<open>A scripted request and a runtime to run \<open>Do\<close> on\<close>

text \<open>
  A request whose \<open>n\<close>-th execution (counting from 0) gets the \<open>n\<close>-th reply of a
  script, whatever transport it is given; the world is the number of executions.
\<close>

record reply =
  r_resp :: "Response option"
  r_err :: "error option"
  r_took :: nat

definition scripted :: "(nat \<Rightarrow> reply) \<Rightarrow> nat Request" where
  "scripted script t n =
     \<lparr>a_resp = r_resp (script n), a_err = r_err (script n), a_took = r_took (script n),
      a_transport = t, a_world = Suc n\<rparr>"

definition answer :: "int \<Rightarrow> bytes \<Rightarrow> nat \<Rightarrow> reply" where
  "answer code body took =
     \<lparr>r_resp = Some \<lparr>StatusCode = code, Body = Reader body None\<rparr>, r_err = None, r_took = took\<rparr>"

definition refused :: reply where
  "refused = \<lparr>r_resp = None, r_err = Some (OtherError ''connection refused''), r_took = 3\<rparr>"

text \<open>
  A runtime in the manner of esapi and encoding/json: a status above 299 is an
  error, the response prints as its body, decoding stores the body and fails on an
  empty one, and a select with both channels ready takes the tick.
\<close>

definition test_runtime :: "bytes runtime" where
  "test_runtime =
     \<lparr>IsError = (\<lambda>resp. 299 < StatusCode resp),
      String = (\<lambda>resp. fst (ReadAll (Body resp))),
      Unmarshal = (\<lambda>body v. if body = [] then (Some (OtherError ''unexpected end of JSON input''), v)
                             else (None, body)),
      pick_timeout = (\<lambda>n. False)\<rparr>"

text \<open>
  The script that gives the same reply every time, and a reply that is the error
  \<open>context.DeadlineExceeded\<close> from the request itself (its context expired).
\<close>

definition always :: "reply \<Rightarrow> nat \<Rightarrow> reply" where
  "always r n = r"

definition timed_out :: reply where
  "timed_out = \<lparr>r_resp = None, r_err = Some DeadlineExceeded, r_took = 7\<rparr>"

text \<open>The condition that holds of no response.\<close>

definition never :: "nat ConditionFunc" where
  "never = pure_cond (\<lambda>resp. False)"

section \<open>Invariants of the polling loop\<close>

text \<open>
  What holds of the ticker between two passes: before the first attempt there is
  none; afterwards it has the configured period, its channel was emptied by the
  last select, and its next tick is at most one period away.
\<close>

definition ticking :: "int \<Rightarrow> ('o, 'w) state \<Rightarrow> bool" where
  "ticking I s =
     (case tickerC s of
        None \<Rightarrow> attempts s = 0
      | Some tk \<Rightarrow> period tk = I \<and> 0 < I \<and> \<not> full tk \<and> next_tick tk \<le> clock s + I \<and> 0 < attempts s)"

text \<open>The time \<open>n\<close> attempts and \<open>n\<close> waits of one interval each take at most.\<close>

definition spent :: "(nat \<Rightarrow> reply) \<Rightarrow> int \<Rightarrow> nat \<Rightarrow> int" where
  "spent script I n = (\<Sum>i<n. int (r_took (script i))) + int n * I"

section \<open>Replaying the request body\<close>

text \<open>
  What a call of \<open>Perform\<close> ends in: the body bytes that the underlying client read
  from the request and put on the wire, or a failure to read them.
\<close>

datatype delivery = Delivered bytes | Failed error

text \<open>
  Modelled from the spec: the method \<open>Perform\<close> of \<open>bodyRepeater\<close>, the type that \<open>Do\<close>
  wraps the transport in and whose code is not among the sources. Section 4.2:
  on the first invocation the wrapper reads and buffers the entire outgoing body,
  if any, then reinstates a fresh stream over the buffered bytes on the request and
  delegates; on every later invocation it skips the buffering and re-installs a
  fresh stream from the captured bytes before delegating; a failure to buffer fails
  the call at once. The plain client reads the body it is given to its end. The
  arguments are the transport and the reader that is the request's body (\<open>None\<close>
  for no body); the result is the delivery, the transport, and the caller's reader
  as the call leaves it: read to its end where someone read it, untouched where a
  fresh stream took its place.
\<close>

fun Perform :: "transport \<Rightarrow> reader option \<Rightarrow> delivery \<times> transport \<times> reader option" where
  "Perform Client None = (Delivered [], Client, None)"
| "Perform Client (Some rd) =
     (case ReadAll rd of
        (bs, None) \<Rightarrow> (Delivered bs, Client, Some (Reader [] None))
      | (bs, Some e) \<Rightarrow> (Failed e, Client, Some (Reader [] (Some e))))"
| "Perform (bodyRepeater t None) None =
     (case Perform t None of (d, t', b) \<Rightarrow> (d, bodyRepeater t' None, None))"
| "Perform (bodyRepeater t None) (Some rd) =
     (case ReadAll rd of
        (bs, Some e) \<Rightarrow> (Failed e, bodyRepeater t None, Some (Reader [] (Some e)))
      | (bs, None) \<Rightarrow>
          (case Perform t (Some (Reader bs None)) of
             (d, t', b) \<Rightarrow> (d, bodyRepeater t' (Some bs), Some (Reader [] None))))"
| "Perform (bodyRepeater t (Some bs)) body =
     (case Perform t (Some (Reader bs None)) of
        (d, t', b) \<Rightarrow> (d, bodyRepeater t' (Some bs), body))"

text \<open>
  A request in the manner of the esapi requests: it carries one \<open>io.Reader\<close> as its
  body, and each execution builds an HTTP request around that same reader and
  performs it on the transport it is given. The world records the reader
  (\<open>source\<close>), the bodies that reached the wire, oldest first, and the number of
  executions; the server's replies follow a script.
\<close>

record harness =
  calls :: nat
  source :: "reader option"
  wire :: "bytes list"

definition body_request :: "(nat \<Rightarrow> reply) \<Rightarrow> harness Request" where
  "body_request script t h =
     (case Perform t (source h) of
        (Failed e, t', src) \<Rightarrow>
          \<lparr>a_resp = None, a_err = Some e, a_took = 0, a_transport = t',
           a_world = h\<lparr>calls := Suc (calls h), source := src\<rparr>\<rparr>
      | (Delivered bs, t', src) \<Rightarrow>
          \<lparr>a_resp = r_resp (script (calls h)), a_err = r_err (script (calls h)),
           a_took = r_took (script (calls h)), a_transport = t',
           a_world = h\<lparr>calls := Suc (calls h), source := src, wire := wire h @ [bs]\<rparr>\<rparr>)"

text \<open>The world before the first execution of a request with body \<open>b\<close>.\<close>

definition fresh :: "bytes \<Rightarrow> harness" where
  "fresh b = \<lparr>calls = 0, source = Some (Reader b None), wire = []\<rparr>"

text \<open>The invariant of the loop: every attempt so far put \<open>b\<close> on the wire.\<close>

definition replaying :: "bytes \<Rightarrow> ('o, harness) state \<Rightarrow> bool" where
  "replaying b s =
     (wire (world s) = replicate (attempts s) b
      \<and> (if attempts s = 0
          then transport s = bodyRepeater Client None \<and> source (world s) = Some (Reader b None)
          else transport s = bodyRepeater Client (Some b)))"

text \<open>The transport and the reader are such that the wrapper can deliver a body.\<close>

definition delivering :: "transport \<Rightarrow> harness \<Rightarrow> bool" where
  "delivering t h =
     (case t of
        bodyRepeater Client None \<Rightarrow> (case source h of Some (Reader b None) \<Rightarrow> True | _ \<Rightarrow> False)
      | bodyRepeater Client (Some b) \<Rightarrow> True
      | _ \<Rightarrow> False)"

section \<open>Query builders\<close>

text \<open>
  A JSON document, as \<open>json.Marshal\<close> writes it: the members of an object in the
  order in which they are written. A Go value of type \<open>any\<close> that a query holds
  (\<open>Value\<close>, the elements of a slice) is taken as the document it marshals to;
  \<open>float64\<close> is modelled by the reals, which covers the finite values and makes
  no difference between 0 and -0 (Go's \<open>== 0\<close> makes none either); for NaN and
  the infinities \<open>json.Marshal\<close> returns an error and writes nothing.
\<close>

datatype json =
  JNull | JBool bool | JNumber real | JString string | JArray "json list"
| JObject "(string \<times> json) list"

text \<open>A slice \<open>[]any\<close>: nil, or its elements. A nil slice marshals to \<open>null\<close>.\<close>

type_synonym slice = "json list option"

fun slice_json :: "slice \<Rightarrow> json" where
  "slice_json None = JNull"
| "slice_json (Some vs) = JArray vs"

fun len :: "slice \<Rightarrow> nat" where
  "len None = 0"
| "len (Some vs) = length vs"

text \<open>
  A \<open>map[string]any\<close> is held as its entries, with distinct keys; \<open>json.Marshal\<close>
  writes them sorted by key (bytewise). \<open>map_set\<close> is the assignment \<open>m[k] = v\<close>.
\<close>

definition go_map :: "(string \<times> json) list \<Rightarrow> json" where
  "go_map kvs = JObject (sort_key fst kvs)"

definition map_set :: "string \<Rightarrow> json \<Rightarrow> (string \<times> json) list \<Rightarrow> (string \<times> json) list" where
  "map_set k v kvs = (k, v) # filter (\<lambda>kv. fst kv \<noteq> k) kvs"

definition encodeQueryJSON :: "string \<Rightarrow> json \<Rightarrow> json" where
  "encodeQueryJSON k v = go_map [(k, v)]"

text \<open>A slice field tagged \<open>omitempty\<close> is left out when its length is 0.\<close>

definition omitempty :: "string \<Rightarrow> slice \<Rightarrow> (string \<times> json) list" where
  "omitempty k vs = (if len vs = 0 then [] else [(k, slice_json vs)])"

record BoolQuery =
  Filter :: slice
  Must :: slice
  MustNot :: slice
  Should :: slice
  MinimumShouldMatch :: int
  Boost :: real

definition BoolQuery_MarshalJSON :: "BoolQuery \<Rightarrow> json" where
  "BoolQuery_MarshalJSON q =
     encodeQueryJSON ''bool''
       (JObject
         (omitempty ''filter'' (Filter q) @ omitempty ''must'' (Must q)
          @ omitempty ''must_not'' (MustNot q) @ omitempty ''should'' (Should q)
          @ (if MinimumShouldMatch q = 0 then []
             else [(''minimum_should_match'', JNumber (of_int (MinimumShouldMatch q)))])
          @ (if BoolQuery.Boost q = 0 then [] else [(''boost'', JNumber (BoolQuery.Boost q))])))"

record ExistsQuery =
  Field :: string

definition ExistsQuery_MarshalJSON :: "ExistsQuery \<Rightarrow> json" where
  "ExistsQuery_MarshalJSON q =
     encodeQueryJSON ''exists'' (go_map [(''field'', JString (ExistsQuery.Field q))])"

record TermQuery =
  Field :: string
  Value :: json
  Boost :: real

definition TermQuery_MarshalJSON :: "TermQuery \<Rightarrow> json" where
  "TermQuery_MarshalJSON q =
     encodeQueryJSON ''term''
       (go_map [(TermQuery.Field q,
          JObject ([(''value'', TermQuery.Value q)]
            @ (if TermQuery.Boost q = 0 then [] else [(''boost'', JNumber (TermQuery.Boost q))])))])"

record TermsQuery =
  Field :: string
  Values :: slice
  Boost :: real

definition TermsQuery_MarshalJSON :: "TermsQuery \<Rightarrow> json" where
  "TermsQuery_MarshalJSON q =
     (let args = [(TermsQuery.Field q, slice_json (Values q))];
          args = (if TermsQuery.Boost q \<noteq> 0
                  then map_set ''boost'' (JNumber (TermsQuery.Boost q)) args else args)
      in encodeQueryJSON ''terms'' (go_map args))"

record MatchPhraseQuery =
  Field :: string
  Value :: json

definition MatchPhraseQuery_MarshalJSON :: "MatchPhraseQuery \<Rightarrow> json" where
  "MatchPhraseQuery_MarshalJSON q =
     encodeQueryJSON ''match_phrase''
       (go_map [(MatchPhraseQuery.Field q, MatchPhraseQuery.Value q)])"

text \<open>
  The text of a document, for documents whose text this model fixes: strings of
  printable ASCII characters that \<open>encoding/json\<close> writes as they are (it escapes
  the quote, the backslash, \<open><\<close>, \<open>>\<close> and \<open>&\<close>), and no numbers;
  \<open>None\<close> for the others.
\<close>

definition plain :: "char \<Rightarrow> bool" where
  "plain c = (32 \<le> (of_char c :: nat) \<and> (of_char c :: nat) < 127
     \<and> c \<notin> {CHR 0x22, CHR 0x5C, CHR ''<'', CHR ''>'', CHR ''&''})"

definition quote :: "string \<Rightarrow> string option" where
  "quote s = (if list_all plain s then Some (CHR 0x22 # s @ [CHR 0x22]) else None)"

fun commas :: "string list \<Rightarrow> string" where
  "commas [] = []"
| "commas [t] = t"
| "commas (t # ts) = t @ '','' @ commas ts"

fun render :: "json \<Rightarrow> string option" where
  "render JNull = Some ''null''"
| "render (JBool b) = Some (if b then ''true'' else ''false'')"
| "render (JNumber r) = None"
| "render (JString s) = quote s"
| "render (JArray vs) =
     map_option (\<lambda>ts. ''['' @ commas ts @ '']'') (those (map render vs))"
| "render (JObject kvs) =
     map_option (\<lambda>ts. ''{'' @ commas ts @ ''}'')
       (those (map (\<lambda>kv. case (quote (fst kv), render (snd kv)) of
                            (Some k, Some v) \<Rightarrow> Some (k @ '':'' @ v)
                          | _ \<Rightarrow> None) kvs))"

chapter \<open>Properties\<close>

section \<open>Conditions\<close>

lemma AllCondition_append_false:
  "fst (AllCondition pre resp w) \<Longrightarrow>
   AllCondition (pre @ post) resp w = AllCondition post resp (snd (AllCondition pre resp w))"
  by (induction pre arbitrary: w) (auto split: prod.splits if_splits)

lemma AllCondition_pure:
  "AllCondition (map pure_cond ps) resp w = ((\<forall>p\<in>set ps. p resp), w)"
  by (induction ps) (auto simp: pure_cond_def)

lemma AllCondition_stops:
  "fst (AllCondition pre resp w) \<Longrightarrow> \<not> fst (f resp (snd (AllCondition pre resp w))) \<Longrightarrow>
   AllCondition (pre @ f # post) resp w = (False, snd (f resp (snd (AllCondition pre resp w))))"
  by (cases "f resp (snd (AllCondition pre resp w))") (simp add: AllCondition_append_false)

text \<open>
  C6. \<open>AllCondition\<close> of no conditions is true on every response and leaves the world
  alone. For conditions without side effects, \<open>AllCondition\<close> is true on a response
  exactly when each of them is true on that response. The conditions run in the
  given order, each in the world its predecessors left: when the conditions \<open>pre\<close>
  all return true, evaluation continues with the rest. It stops at the first
  condition \<open>f\<close> that returns false: the result is false and the world is the one
  \<open>f\<close> left, whatever conditions \<open>post\<close> follow, so none of them was evaluated.
\<close>

theorem AllCondition_semantics:
  "AllCondition [] resp w = (True, w)
   \<and> AllCondition (map pure_cond ps) resp w = ((\<forall>p\<in>set ps. p resp), w)
   \<and> (fst (AllCondition pre resp w) \<longrightarrow>
        AllCondition (pre @ post) resp w = AllCondition post resp (snd (AllCondition pre resp w)))
   \<and> (fst (AllCondition pre resp w) \<and> \<not> fst (f resp (snd (AllCondition pre resp w))) \<longrightarrow>
        AllCondition (pre @ f # post) resp w = (False, snd (f resp (snd (AllCondition pre resp w)))))"
proof (intro conjI impI)
  show "AllCondition [] resp w = (True, w)" by simp
  show "AllCondition (map pure_cond ps) resp w = ((\<forall>p\<in>set ps. p resp), w)"
    by (rule AllCondition_pure)
  show "AllCondition (pre @ post) resp w = AllCondition post resp (snd (AllCondition pre resp w))"
    if "fst (AllCondition pre resp w)" using that by (rule AllCondition_append_false)
  show "AllCondition (pre @ f # post) resp w = (False, snd (f resp (snd (AllCondition pre resp w))))"
    if "fst (AllCondition pre resp w) \<and> \<not> fst (f resp (snd (AllCondition pre resp w)))"
    using that by (simp add: AllCondition_stops)
qed

text \<open>
  Three conditions that log their number: the second returns false, and the log
  shows that the third never ran. Two pure conditions that both hold.
\<close>

theorem AllCondition_semantics_witness:
  "AllCondition [\<lambda>r w. (True, w @ [1::nat]), \<lambda>r w. (False, w @ [2]), \<lambda>r w. (True, w @ [3])]
      \<lparr>StatusCode = 200, Body = Reader ''{}'' None\<rparr> [] = (False, [1, 2])
   \<and> AllCondition (map pure_cond [\<lambda>r. StatusCode r = 200, \<lambda>r. Body r = Reader ''{}'' None])
        \<lparr>StatusCode = 200, Body = Reader ''{}'' None\<rparr> (0::nat) = (True, 0)"
  using AllCondition_semantics [of "\<lparr>StatusCode = 200, Body = Reader ''{}'' None\<rparr>" "[]::nat list"
     "[\<lambda>r. StatusCode r = 200, \<lambda>r. Body r = Reader ''{}'' None]"
     "[\<lambda>r w. (True, w @ [1::nat])]" "[\<lambda>r w. (True, w @ [3])]" "\<lambda>r w. (False, w @ [2])"]
  by (simp add: pure_cond_def)

section \<open>One pass of the loop\<close>

lemma wait_no_ticker: "tickerC s = None \<Longrightarrow> wait rt s = Again s"
  by (simp add: wait_def)

lemma wait_attempts:
  "wait rt s = Again s' \<Longrightarrow>
   attempts s' = attempts s \<and> world s' = world s \<and> transport s' = transport s
   \<and> out s' = out s \<and> timeoutC s' = timeoutC s"
  by (auto simp: wait_def split: option.splits prod.splits selected.splits)

lemma attempt_err:
  "a_err (req (transport s) (world s)) = Some e \<Longrightarrow>
   attempt rt req ro s = Done (Return None (Some e) (after_call (req (transport s) (world s)) s))"
  by (simp add: attempt_def Let_def)

lemma attempt_IsError:
  "a_err (req (transport s) (world s)) = None \<Longrightarrow>
   a_resp (req (transport s) (world s)) = Some resp \<Longrightarrow> IsError rt resp \<Longrightarrow>
   attempt rt req ro s = Done (Return None (Some (Error (StatusCode resp) (String rt resp)))
      (after_call (req (transport s) (world s)) s))"
  by (simp add: attempt_def Let_def)

lemma iteration_Again:
  "wait rt s = Again s1 \<Longrightarrow> iteration rt req ro s = attempt rt req ro s1"
  by (simp add: iteration_def)

lemma iteration_Done:
  "wait rt s = Done r \<Longrightarrow> iteration rt req ro s = Done r"
  by (simp add: iteration_def)

lemma Do_first:
  "Do rt (Suc fuel) req dst opts w =
     (case attempt rt req (resolve opts) (start (resolve opts) dst w) of
        Done r \<Rightarrow> Some r | Again s' \<Rightarrow> loop rt req (resolve opts) fuel s')"
  by (simp add: Do_def iteration_def wait_no_ticker start_def)

text \<open>More fuel does not change a result.\<close>

lemma loop_fuel_mono:
  "loop rt req ro fuel s = Some r \<Longrightarrow> loop rt req ro (fuel + k) s = Some r"
proof (induction fuel arbitrary: s)
  case 0
  then show ?case by simp
next
  case (Suc fuel)
  then show ?case by (cases "iteration rt req ro s") auto
qed

text \<open>An invariant of the loop decides what holds of every result.\<close>

lemma loop_rule:
  assumes "loop rt req ro fuel s = Some r" and "Inv s"
    and "\<And>s s'. Inv s \<Longrightarrow> iteration rt req ro s = Again s' \<Longrightarrow> Inv s'"
    and "\<And>s r. Inv s \<Longrightarrow> iteration rt req ro s = Done r \<Longrightarrow> Q r"
  shows "Q r"
  using assms(1,2)
proof (induction fuel arbitrary: s)
  case 0
  then show ?case by simp
next
  case (Suc fuel)
  show ?case
  proof (cases "iteration rt req ro s")
    case (Done r')
    with Suc.prems show ?thesis using assms(4) by auto
  next
    case (Again s')
    with Suc.prems have "loop rt req ro fuel s' = Some r" by simp
    moreover have "Inv s'" using assms(3) Suc.prems(2) Again by blast
    ultimately show ?thesis by (rule Suc.IH)
  qed
qed

section \<open>No condition: a single attempt\<close>

lemma resolve_no_cond:
  assumes "\<forall>opt\<in>set opts. (\<exists>d. opt = WithTimeout d) \<or> (\<exists>d. opt = WithInterval d)"
  shows "cond (fold (\<lambda>opt ro. opt ro) opts ro) = cond ro"
  using assms by (induction opts arbitrary: ro) (auto simp: WithTimeout_def WithInterval_def)

lemma resolve_nil_cond: "cond (resolve []) = None"
  by (simp add: resolve_def)

lemma attempt_no_cond:
  "cond ro = None \<Longrightarrow>
   \<exists>r. attempt rt req ro s = Done r \<and> attempts (final r) = Suc (attempts s)
     \<and> world (final r) = a_world (req (transport s) (world s))"
  by (auto simp: attempt_def Let_def after_call_def split: option.splits prod.splits)

lemma attempt_no_cond_indep:
  "cond ro = None \<Longrightarrow> cond ro' = None \<Longrightarrow> attempt rt req ro s = attempt rt req ro' s"
  by (auto simp: attempt_def Let_def split: option.splits prod.splits)

lemma attempt_no_cond_success:
  "cond ro = None \<Longrightarrow> attempt rt req ro s = Done r \<Longrightarrow> a = req (transport s) (world s) \<Longrightarrow>
   (\<exists>resp. r = Return (Some resp) None (final r)) =
   (a_err a = None \<and> (\<exists>resp0 body. a_resp a = Some resp0 \<and> \<not> IsError rt resp0
       \<and> ReadAll (Body resp0) = (body, None) \<and> fst (decode rt body (out s)) = None))"
  by (auto simp: attempt_def Let_def after_call_def split: option.splits prod.splits if_splits)

text \<open>
  C2. When the options are only timeouts and intervals (no condition is supplied),
  \<open>Do\<close> ends on any fuel of at least one pass, after exactly one call of the request,
  made on the plain client. It returns a response exactly when that one attempt went
  through (no transport error, a response that is not an error, a body that reads
  and decodes), and the result is the one \<open>Do\<close> gives with no options at all and
  fuel for a single pass: timeouts and intervals play no part, and nothing is retried.
\<close>

theorem no_condition_single_attempt:
  assumes "\<forall>opt\<in>set opts. (\<exists>d. opt = WithTimeout d) \<or> (\<exists>d. opt = WithInterval d)"
    and "a = req Client w"
  shows "\<exists>r. Do rt (Suc fuel) req dst opts w = Some r
           \<and> attempts (final r) = 1
           \<and> world (final r) = a_world a
           \<and> ((\<exists>resp. r = Return (Some resp) None (final r)) =
               (a_err a = None \<and> (\<exists>resp0 body. a_resp a = Some resp0 \<and> \<not> IsError rt resp0
                  \<and> ReadAll (Body resp0) = (body, None) \<and> fst (decode rt body dst) = None)))
           \<and> Do rt (Suc 0) req dst [] w = Some r"
proof -
  have c: "cond (resolve opts) = None"
    using resolve_no_cond [OF assms(1)] by (simp add: resolve_def)
  have st: "start (resolve opts) dst w = start (resolve []) dst w"
    using c resolve_nil_cond by (simp add: start_def)
  obtain r where r: "attempt rt req (resolve opts) (start (resolve opts) dst w) = Done r"
      "attempts (final r) = Suc (attempts (start (resolve opts) dst w))"
      "world (final r) = a_world (req (transport (start (resolve opts) dst w)) (world (start (resolve opts) dst w)))"
    using attempt_no_cond [OF c] by blast
  have "attempt rt req (resolve []) (start (resolve []) dst w) = Done r"
    using r(1) attempt_no_cond_indep [OF c resolve_nil_cond] st by metis
  moreover have "(\<exists>resp. r = Return (Some resp) None (final r)) =
               (a_err a = None \<and> (\<exists>resp0 body. a_resp a = Some resp0 \<and> \<not> IsError rt resp0
                  \<and> ReadAll (Body resp0) = (body, None) \<and> fst (decode rt body dst) = None))"
    using attempt_no_cond_success [OF c r(1), of a] c assms(2) by (simp add: start_def)
  ultimately show ?thesis using r c assms(2) by (simp add: Do_first start_def)
qed

text \<open>A request that would answer forever is executed once, with a timeout and an interval of 1 ns.\<close>

theorem no_condition_single_attempt_witness:
  "\<exists>s. Do test_runtime 7 (scripted (\<lambda>n. answer 200 ''{}'' 5)) (Some [])
      [WithTimeout 1, WithInterval 1] 0
     = Some (Return (Some \<lparr>StatusCode = 200, Body = Reader ''{}'' None\<rparr>) None s)
     \<and> attempts s = 1 \<and> world s = 1 \<and> out s = Some ''{}''"
proof -
  have h: "\<forall>opt\<in>set [WithTimeout 1, WithInterval 1 :: nat RequestOption].
     (\<exists>d. opt = WithTimeout d) \<or> (\<exists>d. opt = WithInterval d)"
    by auto
  show ?thesis
    using no_condition_single_attempt [OF h refl, where rt = test_runtime and fuel = 6
        and req = "scripted (\<lambda>n. answer 200 ''{}'' 5)" and w = 0 and dst = "Some []"]
    by (auto simp: Do_first resolve_def start_def attempt_def Let_def scripted_def answer_def
        test_runtime_def decode_def after_call_def)
qed

section \<open>Terminal errors\<close>

text \<open>
  C3. At every pass of the loop that reaches the request (the wait before it did
  not time out), whatever the options, also with a condition and a long timeout:
  if \<open>req.Do\<close> returns an error, \<open>Do\<close> returns nil and that same error at once; if
  the response is an error response, \<open>Do\<close> returns nil and an \<open>Error\<close> with the
  response's status code and \<open>resp.String()\<close> (esapi prints the status line and the
  raw body) as its message. The request has then been called once more and is not
  called again. The same holds of the first attempt of a call of \<open>Do\<close>.
\<close>

theorem terminal_errors_not_retried:
  assumes "wait rt s = Again s1" and "a = req (transport s1) (world s1)"
    and "a0 = req (transport (start (resolve opts) dst w)) w"
  shows "(a_err a = Some e \<longrightarrow>
            loop rt req ro (Suc fuel) s = Some (Return None (Some e) (after_call a s1)))
       \<and> (a_err a = None \<and> a_resp a = Some resp \<and> IsError rt resp \<longrightarrow>
            loop rt req ro (Suc fuel) s =
              Some (Return None (Some (Error (StatusCode resp) (String rt resp))) (after_call a s1)))
       \<and> attempts (after_call a s1) = Suc (attempts s)
       \<and> (a_err a0 = Some e \<longrightarrow>
            Do rt (Suc fuel) req dst opts w =
              Some (Return None (Some e) (after_call a0 (start (resolve opts) dst w))))
       \<and> (a_err a0 = None \<and> a_resp a0 = Some resp \<and> IsError rt resp \<longrightarrow>
            Do rt (Suc fuel) req dst opts w =
              Some (Return None (Some (Error (StatusCode resp) (String rt resp)))
                (after_call a0 (start (resolve opts) dst w))))
       \<and> attempts (after_call a0 (start (resolve opts) dst w)) = 1"
proof (intro conjI impI)
  show "loop rt req ro (Suc fuel) s = Some (Return None (Some e) (after_call a s1))"
    if "a_err a = Some e"
    using that assms(1,2) by (simp add: iteration_Again attempt_err)
  show "loop rt req ro (Suc fuel) s =
      Some (Return None (Some (Error (StatusCode resp) (String rt resp))) (after_call a s1))"
    if "a_err a = None \<and> a_resp a = Some resp \<and> IsError rt resp"
    using that assms(1,2) by (simp add: iteration_Again attempt_IsError)
  show "attempts (after_call a s1) = Suc (attempts s)"
    using wait_attempts [OF assms(1)] by (simp add: after_call_def)
  have w0: "world (start (resolve opts) dst w) = w" by (simp add: start_def)
  show "Do rt (Suc fuel) req dst opts w =
      Some (Return None (Some e) (after_call a0 (start (resolve opts) dst w)))"
    if "a_err a0 = Some e"
    using that assms(3) w0 by (simp add: Do_first attempt_err)
  show "Do rt (Suc fuel) req dst opts w =
      Some (Return None (Some (Error (StatusCode resp) (String rt resp)))
        (after_call a0 (start (resolve opts) dst w)))"
    if "a_err a0 = None \<and> a_resp a0 = Some resp \<and> IsError rt resp"
    using that assms(3) w0 by (simp add: Do_first attempt_IsError)
  show "attempts (after_call a0 (start (resolve opts) dst w)) = 1"
    by (simp add: after_call_def start_def)
qed

text \<open>
  With a condition that never holds and a timeout of one second, a refused
  connection and a 404 each end the call after one attempt.
\<close>

theorem terminal_errors_not_retried_witness:
  "Do test_runtime 9 (scripted (\<lambda>n. refused)) None
      [WithCondition (Some (pure_cond (\<lambda>r. False))), WithTimeout 1000000000] 0
     = Some (Return None (Some (OtherError ''connection refused''))
         \<lparr>clock = 3, timeoutC = Some 1000000000, tickerC = None,
          transport = bodyRepeater Client None, out = None, world = 1, attempts = 1\<rparr>)
   \<and> Do test_runtime 9 (scripted (\<lambda>n. answer 404 ''no such index'' 2)) None
      [WithCondition (Some (pure_cond (\<lambda>r. False))), WithTimeout 1000000000] 0
     = Some (Return None (Some (Error 404 ''no such index''))
         \<lparr>clock = 2, timeoutC = Some 1000000000, tickerC = None,
          transport = bodyRepeater Client None, out = None, world = 1, attempts = 1\<rparr>)"
proof -
  let ?opts = "[WithCondition (Some (pure_cond (\<lambda>r. False))), WithTimeout 1000000000] :: nat RequestOption list"
  let ?s = "start (resolve ?opts) (None :: bytes option) (0::nat)"
  have w: "wait test_runtime ?s = Again ?s"
    by (simp add: wait_def start_def)
  have e1: "a_err (scripted (\<lambda>n. refused) (transport ?s) 0) = Some (OtherError ''connection refused'')"
    by (simp add: scripted_def refused_def)
  have e2: "a_err (scripted (\<lambda>n. answer 404 ''no such index'' 2) (transport ?s) 0) = None
     \<and> a_resp (scripted (\<lambda>n. answer 404 ''no such index'' 2) (transport ?s) 0)
         = Some \<lparr>StatusCode = 404, Body = Reader ''no such index'' None\<rparr>
     \<and> IsError test_runtime \<lparr>StatusCode = 404, Body = Reader ''no such index'' None\<rparr>"
    by (simp add: scripted_def answer_def test_runtime_def)
  have s: "?s = \<lparr>clock = 0, timeoutC = Some 1000000000, tickerC = None,
          transport = bodyRepeater Client None, out = None, world = 0, attempts = 0\<rparr>"
    by (simp add: start_def resolve_def WithCondition_def WithTimeout_def)
  show ?thesis
    using terminal_errors_not_retried [OF w, of _ "scripted (\<lambda>n. refused)" _ ?opts None 0
        "OtherError ''connection refused''" _ 8, OF refl refl] e1
      terminal_errors_not_retried [OF w, of _ "scripted (\<lambda>n. answer 404 ''no such index'' 2)" _ ?opts None 0
        _ _ 8 "\<lparr>StatusCode = 404, Body = Reader ''no such index'' None\<rparr>", OF refl refl] e2
    unfolding s
    by (simp add: scripted_def refused_def answer_def after_call_def test_runtime_def)
qed

section \<open>The poll interval\<close>

lemma attempt_panic_interval:
  assumes "cond ro = Some c" and "interval ro \<le> 0" and "tickerC s = None"
    and "a = req (transport s) (world s)" and "a_err a = None" and "a_resp a = Some resp"
    and "\<not> IsError rt resp" and "ReadAll (Body resp) = (body, None)"
    and "fst (decode rt body (out s)) = None"
    and "\<not> fst (c (resp\<lparr>Body := Reader body None\<rparr>) (a_world a))"
  shows "\<exists>s'. attempt rt req ro s = Done (Panic ''non-positive interval for NewTicker'' s')
           \<and> attempts s' = Suc (attempts s)"
  using assms
  by (auto simp: attempt_def Let_def after_call_def NewTicker_def split: prod.splits option.splits)

lemma attempt_no_panic_interval:
  "0 < interval ro \<Longrightarrow> attempt rt req ro s \<noteq> Done (Panic ''non-positive interval for NewTicker'' s')"
  by (auto simp: attempt_def Let_def NewTicker_def split: prod.splits option.splits)

lemma wait_no_panic: "wait rt s \<noteq> Done (Panic m s')"
  by (auto simp: wait_def split: prod.splits option.splits selected.splits)

lemma iteration_no_panic_interval:
  "0 < interval ro \<Longrightarrow> iteration rt req ro s \<noteq> Done (Panic ''non-positive interval for NewTicker'' s')"
  using attempt_no_panic_interval [of ro rt req] wait_no_panic [of rt s]
  by (cases "wait rt s") (auto simp: iteration_def)

text \<open>
  C10. Nothing checks the interval. With a condition, a first attempt that goes
  through and a first condition check that fails, an effective interval that is
  not positive makes \<open>Do\<close> panic in \<open>time.NewTicker\<close>, after that one attempt,
  instead of returning an error. With a positive interval no call of \<open>Do\<close>, on
  any path and any fuel, ends in that panic.
\<close>

theorem ticker_interval_unchecked:
  "(cond (resolve opts) = Some c \<and> interval (resolve opts) \<le> 0
      \<and> a = req (bodyRepeater Client None) w \<and> a_err a = None \<and> a_resp a = Some resp
      \<and> \<not> IsError rt resp \<and> ReadAll (Body resp) = (body, None)
      \<and> fst (decode rt body dst) = None
      \<and> \<not> fst (c (resp\<lparr>Body := Reader body None\<rparr>) (a_world a))
     \<longrightarrow> (\<exists>s. Do rt (Suc fuel) req dst opts w = Some (Panic ''non-positive interval for NewTicker'' s)
            \<and> attempts s = 1))
   \<and> (0 < interval (resolve opts)
     \<longrightarrow> (\<forall>n s. Do rt n req dst opts w \<noteq> Some (Panic ''non-positive interval for NewTicker'' s)))"
proof (intro conjI impI allI)
  assume h: "cond (resolve opts) = Some c \<and> interval (resolve opts) \<le> 0
      \<and> a = req (bodyRepeater Client None) w \<and> a_err a = None \<and> a_resp a = Some resp
      \<and> \<not> IsError rt resp \<and> ReadAll (Body resp) = (body, None)
      \<and> fst (decode rt body dst) = None
      \<and> \<not> fst (c (resp\<lparr>Body := Reader body None\<rparr>) (a_world a))"
  let ?s = "start (resolve opts) dst w"
  have "\<exists>s'. attempt rt req (resolve opts) ?s = Done (Panic ''non-positive interval for NewTicker'' s')
           \<and> attempts s' = Suc (attempts ?s)"
    by (rule attempt_panic_interval [where c = c and a = a and resp = resp and body = body])
       (use h in \<open>auto simp: start_def\<close>)
  then show "\<exists>s. Do rt (Suc fuel) req dst opts w = Some (Panic ''non-positive interval for NewTicker'' s)
            \<and> attempts s = 1"
    by (auto simp: Do_first start_def)
next
  fix n s
  assume pos: "0 < interval (resolve opts)"
  show "Do rt n req dst opts w \<noteq> Some (Panic ''non-positive interval for NewTicker'' s)"
  proof
    assume "Do rt n req dst opts w = Some (Panic ''non-positive interval for NewTicker'' s)"
    then have l: "loop rt req (resolve opts) n (start (resolve opts) dst w)
        = Some (Panic ''non-positive interval for NewTicker'' s)"
      by (simp add: Do_def)
    have "\<forall>s'. Panic ''non-positive interval for NewTicker'' s \<noteq> Panic ''non-positive interval for NewTicker'' s'"
      by (rule loop_rule [OF l, where Inv = "\<lambda>s. True"
            and Q = "\<lambda>r. \<forall>s'. r \<noteq> Panic ''non-positive interval for NewTicker'' s'"])
         (use iteration_no_panic_interval [OF pos] in auto)
    then show False by simp
  qed
qed

text \<open>\<open>WithInterval(0)\<close> panics after the first attempt; \<open>WithInterval(1)\<close> never does.\<close>

theorem ticker_interval_unchecked_witness:
  "(\<exists>s. Do test_runtime 4 (scripted (\<lambda>n. answer 200 ''{}'' 5)) None
       [WithCondition (Some (pure_cond (\<lambda>r. False))), WithInterval 0] 0
       = Some (Panic ''non-positive interval for NewTicker'' s) \<and> attempts s = 1)
   \<and> (\<forall>n s. Do test_runtime n (scripted (\<lambda>n. answer 200 ''{}'' 5)) None
       [WithCondition (Some (pure_cond (\<lambda>r. False))), WithInterval 1] 0
       \<noteq> Some (Panic ''non-positive interval for NewTicker'' s))"
proof -
  let ?c = "Some (pure_cond (\<lambda>r. False)) :: nat ConditionFunc option"
  have a: "\<exists>s. Do test_runtime (Suc 3) (scripted (\<lambda>n. answer 200 ''{}'' 5)) None
       [WithCondition ?c, WithInterval 0] 0
       = Some (Panic ''non-positive interval for NewTicker'' s) \<and> attempts s = 1"
    using ticker_interval_unchecked [where opts = "[WithCondition ?c, WithInterval 0]"
        and c = "pure_cond (\<lambda>r. False)" and req = "scripted (\<lambda>n. answer 200 ''{}'' 5)" and w = 0
        and a = "scripted (\<lambda>n. answer 200 ''{}'' 5) (bodyRepeater Client None) 0"
        and resp = "\<lparr>StatusCode = 200, Body = Reader ''{}'' None\<rparr>" and body = "''{}''"
        and rt = test_runtime and dst = None and fuel = 3]
    by (simp add: resolve_def WithCondition_def WithInterval_def scripted_def answer_def
        test_runtime_def decode_def pure_cond_def)
  have b: "\<forall>n s. Do test_runtime n (scripted (\<lambda>n. answer 200 ''{}'' 5)) None
       [WithCondition ?c, WithInterval 1] 0
       \<noteq> Some (Panic ''non-positive interval for NewTicker'' s)"
    using ticker_interval_unchecked [where opts = "[WithCondition ?c, WithInterval 1]"
        and req = "scripted (\<lambda>n. answer 200 ''{}'' 5)" and w = 0
        and rt = test_runtime and dst = None]
    by (simp add: resolve_def WithCondition_def WithInterval_def)
  show ?thesis using a b by (simp add: numeral_eq_Suc)
qed

section \<open>What the caller gets\<close>

lemma attempt_Done_shape:
  "attempt rt req ro s = Done (Return r e s') \<Longrightarrow>
   (r = None \<and> e \<noteq> None)
   \<or> (e = None \<and> (\<exists>resp body. r = Some resp \<and> Body resp = Reader body None
         \<and> (case out s of None \<Rightarrow> out s' = None
             | Some v0 \<Rightarrow> \<exists>v. Unmarshal rt body v0 = (None, v) \<and> out s' = Some v)))"
  by (auto simp: attempt_def Let_def after_call_def decode_def
      split: option.splits prod.splits if_splits intro: sym)

lemma attempt_Again_props:
  "attempt rt req ro s = Again s' \<Longrightarrow>
   (out s' = None) = (out s = None) \<and> timeoutC s' = timeoutC s
   \<and> attempts s' = Suc (attempts s) \<and> tickerC s' \<noteq> None \<and> cond ro \<noteq> None"
  by (auto simp: attempt_def Let_def after_call_def decode_def
      split: option.splits prod.splits if_splits)

lemma select_chan_Timeout:
  "select_chan pick now tc tk = (Timeout, now', tk') \<Longrightarrow> \<exists>d. tc = Some d \<and> d \<le> now'"
  by (auto simp: select_chan_def Let_def split: option.splits if_splits)

lemma wait_Done:
  "wait rt s = Done r \<Longrightarrow>
   \<exists>s' d. r = Return None (Some DeadlineExceeded) s' \<and> timeoutC s = Some d \<and> d \<le> clock s'
     \<and> attempts s' = attempts s \<and> world s' = world s \<and> tickerC s \<noteq> None
     \<and> timeoutC s' = timeoutC s \<and> out s' = out s \<and> transport s' = transport s"
  by (auto simp: wait_def split: option.splits prod.splits selected.splits
      dest: select_chan_Timeout)

text \<open>
  C8, as the code has it. A call of \<open>Do\<close> need not return: it may poll without
  end or panic. Whenever it returns, it returns either nil and an error, or a
  response and no error; never both and never neither. In the second case the
  body of the returned response is a fresh reader over the bytes that were read,
  and a destination, if the caller gave one, holds the result of a successful
  \<open>json.Unmarshal\<close> of those very bytes; a nil destination stays nil.
\<close>

theorem Do_response_or_error:
  assumes "Do rt fuel req dst opts w = Some (Return r e s)"
  shows "(r = None \<and> e \<noteq> None)
       \<or> (e = None \<and> (\<exists>resp body. r = Some resp \<and> Body resp = Reader body None
             \<and> (dst = None \<longrightarrow> out s = None)
             \<and> (dst \<noteq> None \<longrightarrow> (\<exists>v0 v. Unmarshal rt body v0 = (None, v) \<and> out s = Some v))))"
proof -
  let ?Q = "\<lambda>res. \<forall>r e s. res = Return r e s \<longrightarrow>
       (r = None \<and> e \<noteq> None)
       \<or> (e = None \<and> (\<exists>resp body. r = Some resp \<and> Body resp = Reader body None
             \<and> (dst = None \<longrightarrow> out s = None)
             \<and> (dst \<noteq> None \<longrightarrow> (\<exists>v0 v. Unmarshal rt body v0 = (None, v) \<and> out s = Some v))))"
  let ?Inv = "\<lambda>s :: ('a, 'b) state. (out s = None) = (dst = None)"
  have l: "loop rt req (resolve opts) fuel (start (resolve opts) dst w) = Some (Return r e s)"
    using assms by (simp add: Do_def)
  have "?Q (Return r e s)"
  proof (rule loop_rule [OF l, where Inv = ?Inv and Q = ?Q])
    show "?Inv (start (resolve opts) dst w)" by (simp add: start_def)
  next
    fix s s' :: "('a, 'b) state"
    assume inv: "?Inv s" and it: "iteration rt req (resolve opts) s = Again s'"
    then obtain s1 where s1: "wait rt s = Again s1" "attempt rt req (resolve opts) s1 = Again s'"
      by (cases "wait rt s") (auto simp: iteration_def)
    show "?Inv s'"
      using wait_attempts [OF s1(1)] attempt_Again_props [OF s1(2)] inv by simp
  next
    fix s :: "('a, 'b) state" and res
    assume inv: "?Inv s" and it: "iteration rt req (resolve opts) s = Done res"
    show "?Q res"
    proof (cases "wait rt s")
      case (Done r')
      then show ?thesis using it wait_Done [OF Done] by (auto simp: iteration_def)
    next
      case (Again s1)
      then have a: "attempt rt req (resolve opts) s1 = Done res"
        using it by (simp add: iteration_def)
      have o: "(out s1 = None) = (dst = None)"
        using wait_attempts [OF Again] inv by simp
      show ?thesis
      proof (intro allI impI)
        fix r e s2
        assume "res = Return r e s2"
        then show "(r = None \<and> e \<noteq> None)
          \<or> (e = None \<and> (\<exists>resp body. r = Some resp \<and> Body resp = Reader body None
             \<and> (dst = None \<longrightarrow> out s2 = None)
             \<and> (dst \<noteq> None \<longrightarrow> (\<exists>v0 v. Unmarshal rt body v0 = (None, v) \<and> out s2 = Some v))))"
          using attempt_Done_shape [of rt req "resolve opts" s1 r e s2] a o
          by (cases "out s1") auto
      qed
    qed
  qed
  then show ?thesis by simp
qed

text \<open>A call with a destination that returns a response and the decoded body.\<close>

theorem Do_response_or_error_witness:
  "\<exists>s. Do test_runtime 2 (scripted (\<lambda>n. answer 200 ''{}'' 5)) (Some []) [] 0
       = Some (Return (Some \<lparr>StatusCode = 200, Body = Reader ''{}'' None\<rparr>) None s)
     \<and> out s = Some ''{}''"
proof -
  obtain s where s: "Do test_runtime 2 (scripted (\<lambda>n. answer 200 ''{}'' 5)) (Some []) [] 0
       = Some (Return (Some \<lparr>StatusCode = 200, Body = Reader ''{}'' None\<rparr>) None s)"
    by (simp add: numeral_2_eq_2 Do_first resolve_def start_def attempt_def Let_def scripted_def
        answer_def test_runtime_def decode_def after_call_def)
  show ?thesis
    using Do_response_or_error [OF s] s by (auto simp: test_runtime_def split: if_splits)
qed

section \<open>The deadline\<close>

lemma attempt_Done_deadline:
  assumes "attempt rt req ro s = Done (Return r (Some DeadlineExceeded) s')"
    and "a_err (req (transport s) (world s)) \<noteq> Some DeadlineExceeded"
    and "\<And>resp. a_resp (req (transport s) (world s)) = Some resp \<Longrightarrow>
           snd (ReadAll (Body resp)) \<noteq> Some DeadlineExceeded"
    and "\<And>body v. fst (Unmarshal rt body v) \<noteq> Some DeadlineExceeded"
  shows False
proof -
  let ?a = "req (transport s) (world s)"
  show False
  proof (cases "a_err ?a")
    case (Some e)
    then show ?thesis using assms(1,2) by (simp add: attempt_def Let_def)
  next
    case None
    show ?thesis
    proof (cases "a_resp ?a")
      case N: None
      then show ?thesis using assms(1) None by (simp add: attempt_def Let_def)
    next
      case (Some resp)
      obtain body re where ra: "ReadAll (Body resp) = (body, re)" by (cases "ReadAll (Body resp)")
      have re: "re \<noteq> Some DeadlineExceeded" using assms(3) [OF Some] ra by simp
      obtain de dv where d: "decode rt body (out (after_call ?a s)) = (de, dv)"
        by (cases "decode rt body (out (after_call ?a s))")
      have "Unmarshal rt b v \<noteq> (Some DeadlineExceeded, v')" for b v v'
        using assms(4) [of b v] by auto
      then have de: "de \<noteq> Some DeadlineExceeded"
        using d by (auto simp: decode_def split: option.splits prod.splits)
      show ?thesis
        using assms(1) None Some ra re d de
        by (auto simp: attempt_def Let_def split: option.splits prod.splits if_splits)
    qed
  qed
qed



lemma start_simps:
  "clock (start ro dst w) = 0" "tickerC (start ro dst w) = None" "out (start ro dst w) = dst"
  "world (start ro dst w) = w" "attempts (start ro dst w) = 0"
  "timeoutC (start ro dst w) = (if cond ro \<noteq> None \<and> timeout ro > 0 then Some (timeout ro) else None)"
  "transport (start ro dst w) = (if cond ro \<noteq> None then bodyRepeater Client None else Client)"
  by (simp_all add: start_def)

lemma Do_deadline:
  fixes rt :: "'o runtime" and req :: "'w Request"
  assumes ne: "\<And>t w'. a_err (req t w') \<noteq> Some DeadlineExceeded"
    and nr: "\<And>t w' resp. a_resp (req t w') = Some resp \<Longrightarrow> snd (ReadAll (Body resp)) \<noteq> Some DeadlineExceeded"
    and nu: "\<And>body v. fst (Unmarshal rt body v) \<noteq> Some DeadlineExceeded"
    and d: "Do rt fuel req dst opts w = Some (Return r (Some DeadlineExceeded) s)"
  shows "r = None \<and> cond (resolve opts) \<noteq> None \<and> 0 < timeout (resolve opts)
       \<and> timeout (resolve opts) \<le> clock s \<and> 1 \<le> attempts s"
proof -
  let ?ro = "resolve opts"
  let ?s0 = "start ?ro dst w"
  let ?Inv = "\<lambda>s :: ('o, 'w) state. timeoutC s = timeoutC ?s0 \<and> (tickerC s \<noteq> None \<longrightarrow> 1 \<le> attempts s)"
  let ?Q = "\<lambda>res. \<forall>r s. res = Return r (Some DeadlineExceeded) s \<longrightarrow>
       r = None \<and> cond ?ro \<noteq> None \<and> 0 < timeout ?ro \<and> timeout ?ro \<le> clock s \<and> 1 \<le> attempts s"
  have l: "loop rt req ?ro fuel ?s0 = Some (Return r (Some DeadlineExceeded) s)"
    using d by (simp add: Do_def)
  have "?Q (Return r (Some DeadlineExceeded) s)"
  proof (rule loop_rule [OF l, where Inv = ?Inv and Q = ?Q])
    show "?Inv ?s0" by (simp add: start_simps)
  next
    fix s s' :: "('o, 'w) state"
    assume inv: "?Inv s" and it: "iteration rt req ?ro s = Again s'"
    then obtain s1 where s1: "wait rt s = Again s1" "attempt rt req ?ro s1 = Again s'"
      by (cases "wait rt s") (auto simp: iteration_def)
    show "?Inv s'"
      using wait_attempts [OF s1(1)] attempt_Again_props [OF s1(2)] inv by simp
  next
    fix s :: "('o, 'w) state" and res
    assume inv: "?Inv s" and it: "iteration rt req ?ro s = Done res"
    show "?Q res"
    proof (cases "wait rt s")
      case (Done r')
      then have "res = r'" using it by (simp add: iteration_def)
      then show ?thesis
        using wait_Done [OF Done] inv by (auto simp: start_simps split: if_splits)
    next
      case (Again s1)
      then have a: "attempt rt req ?ro s1 = Done res"
        using it by (simp add: iteration_def)
      show ?thesis
      proof (intro allI impI)
        fix r2 s2
        assume "res = Return r2 (Some DeadlineExceeded) s2"
        then have "attempt rt req ?ro s1 = Done (Return r2 (Some DeadlineExceeded) s2)"
          using a by simp
        then have False
          by (rule attempt_Done_deadline) (use ne nr nu in auto)
        then show "r2 = None \<and> cond ?ro \<noteq> None \<and> 0 < timeout ?ro \<and> timeout ?ro \<le> clock s2 \<and> 1 \<le> attempts s2"
          by simp
      qed
    qed
  qed
  then show ?thesis by simp
qed





section \<open>A timeout of zero\<close>

lemma loop_never:
  assumes "Inv s"
    and "\<And>s. Inv s \<Longrightarrow> \<exists>s'. iteration rt req ro s = Again s' \<and> Inv s'"
  shows "loop rt req ro fuel s = None"
  using assms(1)
proof (induction fuel arbitrary: s)
  case 0
  then show ?case by simp
next
  case (Suc fuel)
  obtain s' where "iteration rt req ro s = Again s'" "Inv s'"
    using assms(2) [OF Suc.prems] by blast
  then show ?case using Suc.IH by simp
qed

lemma select_chan_no_timer: "fst (select_chan pick now None tk) = Tick"
  by (simp add: select_chan_def Let_def)

lemma wait_no_timer: "timeoutC s = None \<Longrightarrow> \<exists>s1. wait rt s = Again s1"
  using select_chan_no_timer
  by (auto simp: wait_def split: option.splits prod.splits selected.splits)
     (metis fst_conv selected.distinct(1))

lemma decode_ok: "\<forall>v. fst (Unmarshal rt body v) = None \<Longrightarrow> fst (decode rt body dst) = None"
proof (cases dst)
  case None
  then show ?thesis by (simp add: decode_def)
next
  case (Some v)
  assume "\<forall>v. fst (Unmarshal rt body v) = None"
  then have "fst (Unmarshal rt body v) = None" by simp
  then show ?thesis using Some by (cases "Unmarshal rt body v") (simp add: decode_def)
qed

lemma attempt_polls:
  assumes "cond ro = Some c" and "0 < interval ro"
    and "a = req (transport s) (world s)" and "a_err a = None" and "a_resp a = Some resp"
    and "\<not> IsError rt resp" and "ReadAll (Body resp) = (body, None)"
    and "\<forall>v. fst (Unmarshal rt body v) = None"
    and "\<not> fst (c (resp\<lparr>Body := Reader body None\<rparr>) (a_world a))"
  shows "\<exists>s'. attempt rt req ro s = Again s' \<and> timeoutC s' = timeoutC s
     \<and> transport s' = a_transport a
     \<and> world s' = snd (c (resp\<lparr>Body := Reader body None\<rparr>) (a_world a))"
proof -
  have d: "fst (decode rt body (out (after_call a s))) = None"
    using assms(8) by (rule decode_ok)
  obtain dv where dv: "decode rt body (out (after_call a s)) = (None, dv)"
    using d by (cases "decode rt body (out (after_call a s))") auto
  obtain b w' where c: "c (resp\<lparr>Body := Reader body None\<rparr>) (a_world a) = (b, w')"
    by (cases "c (resp\<lparr>Body := Reader body None\<rparr>) (a_world a)")
  have b: "\<not> b" using assms(9) c by simp
  have w: "world (after_call a s) = a_world a" by (simp add: after_call_def)
  show ?thesis
    using assms(1-7) dv c b w
    by (auto simp: attempt_def Let_def NewTicker_def after_call_def split: option.splits)
qed

lemma Do_polls_forever:
  fixes rt :: "'o runtime" and req :: "'w Request"
  assumes c: "cond (resolve opts) = Some c" and t: "timeout (resolve opts) \<le> 0"
    and i: "0 < interval (resolve opts)"
    and I0: "I (bodyRepeater Client None) w"
    and step: "\<And>t w'. I t w' \<Longrightarrow>
        \<exists>resp body. a_err (req t w') = None \<and> a_resp (req t w') = Some resp \<and> \<not> IsError rt resp
          \<and> ReadAll (Body resp) = (body, None) \<and> (\<forall>v. fst (Unmarshal rt body v) = None)
          \<and> \<not> fst (c (resp\<lparr>Body := Reader body None\<rparr>) (a_world (req t w')))
          \<and> I (a_transport (req t w')) (snd (c (resp\<lparr>Body := Reader body None\<rparr>) (a_world (req t w'))))"
  shows "Do rt fuel req dst opts w = None"
proof -
  let ?ro = "resolve opts"
  let ?Inv = "\<lambda>s :: ('o, 'w) state. timeoutC s = None \<and> I (transport s) (world s)"
  have "loop rt req ?ro fuel (start ?ro dst w) = None"
  proof (rule loop_never [where Inv = ?Inv])
    show "?Inv (start ?ro dst w)" using c t I0 by (simp add: start_simps)
  next
    fix s :: "('o, 'w) state"
    assume inv: "?Inv s"
    then obtain s1 where s1: "wait rt s = Again s1" using wait_no_timer by blast
    have f: "timeoutC s1 = None" "I (transport s1) (world s1)"
      using wait_attempts [OF s1] inv by simp_all
    obtain resp body where a: "a_err (req (transport s1) (world s1)) = None"
        "a_resp (req (transport s1) (world s1)) = Some resp" "\<not> IsError rt resp"
        "ReadAll (Body resp) = (body, None)" "\<forall>v. fst (Unmarshal rt body v) = None"
        "\<not> fst (c (resp\<lparr>Body := Reader body None\<rparr>) (a_world (req (transport s1) (world s1))))"
        "I (a_transport (req (transport s1) (world s1)))
           (snd (c (resp\<lparr>Body := Reader body None\<rparr>) (a_world (req (transport s1) (world s1)))))"
      using step [OF f(2)] by blast
    obtain s' where "attempt rt req ?ro s1 = Again s'" "timeoutC s' = timeoutC s1"
        "transport s' = a_transport (req (transport s1) (world s1))"
        "world s' = snd (c (resp\<lparr>Body := Reader body None\<rparr>) (a_world (req (transport s1) (world s1))))"
      using attempt_polls [where rt = rt and req = req and s = s1
          and a = "req (transport s1) (world s1)", OF c i refl a(1-6)] by blast
    then show "\<exists>s'. iteration rt req ?ro s = Again s' \<and> ?Inv s'"
      using s1 f a(7) by (auto simp: iteration_def)
  qed
  then show ?thesis by (simp add: Do_def)
qed

text \<open>
  C7, as the code has it. With a condition and a resolved timeout of 0 (as
  \<open>WithTimeout(0)\<close> in last place gives; the default of one minute is only the
  value before any option is applied) no timer is armed: \<open>timeoutC\<close> stays nil. The
  timeout case of the select is then never taken, so \<open>Do\<close> returns
  \<open>context.DeadlineExceeded\<close> only if an attempt itself fails with that error:
  provided the request, the body read and the decoder never do, no run of \<open>Do\<close>
  returns it. And with a positive interval \<open>Do\<close> polls without end while every
  attempt goes through and the condition stays false: from configurations of
  transport and world (\<open>I\<close>) in which this is so and which an attempt and a
  condition check preserve, \<open>Do\<close> does not end on any fuel.
\<close>

theorem zero_timeout_unbounded:
  assumes "cond (resolve opts) = Some c" and "timeout (resolve opts) = 0"
  shows "timeoutC (start (resolve opts) dst w) = None
   \<and> timeout (resolve (pre @ [WithTimeout 0])) = 0
   \<and> ((\<forall>t w'. a_err (req t w') \<noteq> Some DeadlineExceeded)
        \<and> (\<forall>t w' resp. a_resp (req t w') = Some resp \<longrightarrow> snd (ReadAll (Body resp)) \<noteq> Some DeadlineExceeded)
        \<and> (\<forall>body v. fst (Unmarshal rt body v) \<noteq> Some DeadlineExceeded)
       \<longrightarrow> (\<forall>fuel r s. Do rt fuel req dst opts w \<noteq> Some (Return r (Some DeadlineExceeded) s)))
   \<and> (0 < interval (resolve opts) \<and> I (bodyRepeater Client None) w
        \<and> (\<forall>t w'. I t w' \<longrightarrow>
             (\<exists>resp body. a_err (req t w') = None \<and> a_resp (req t w') = Some resp \<and> \<not> IsError rt resp
                \<and> ReadAll (Body resp) = (body, None) \<and> (\<forall>v. fst (Unmarshal rt body v) = None)
                \<and> \<not> fst (c (resp\<lparr>Body := Reader body None\<rparr>) (a_world (req t w')))
                \<and> I (a_transport (req t w'))
                     (snd (c (resp\<lparr>Body := Reader body None\<rparr>) (a_world (req t w'))))))
       \<longrightarrow> (\<forall>fuel. Do rt fuel req dst opts w = None))"
proof (intro conjI impI allI)
  show "timeoutC (start (resolve opts) dst w) = None"
    using assms by (simp add: start_simps)
  show "timeout (resolve (pre @ [WithTimeout 0])) = 0"
    by (simp add: resolve_def WithTimeout_def)
next
  fix fuel r s
  assume h: "(\<forall>t w'. a_err (req t w') \<noteq> Some DeadlineExceeded)
        \<and> (\<forall>t w' resp. a_resp (req t w') = Some resp \<longrightarrow> snd (ReadAll (Body resp)) \<noteq> Some DeadlineExceeded)
        \<and> (\<forall>body v. fst (Unmarshal rt body v) \<noteq> Some DeadlineExceeded)"
  show "Do rt fuel req dst opts w \<noteq> Some (Return r (Some DeadlineExceeded) s)"
  proof
    assume d: "Do rt fuel req dst opts w = Some (Return r (Some DeadlineExceeded) s)"
    have "0 < timeout (resolve opts)"
      using Do_deadline [where req = req and rt = rt, OF _ _ _ d] h by blast
    then show False using assms(2) by simp
  qed
next
  fix fuel
  assume h: "0 < interval (resolve opts) \<and> I (bodyRepeater Client None) w
        \<and> (\<forall>t w'. I t w' \<longrightarrow>
             (\<exists>resp body. a_err (req t w') = None \<and> a_resp (req t w') = Some resp \<and> \<not> IsError rt resp
                \<and> ReadAll (Body resp) = (body, None) \<and> (\<forall>v. fst (Unmarshal rt body v) = None)
                \<and> \<not> fst (c (resp\<lparr>Body := Reader body None\<rparr>) (a_world (req t w')))
                \<and> I (a_transport (req t w'))
                     (snd (c (resp\<lparr>Body := Reader body None\<rparr>) (a_world (req t w'))))))"
  show "Do rt fuel req dst opts w = None"
  proof (rule Do_polls_forever [where c = c and I = I])
    show "cond (resolve opts) = Some c" by (rule assms(1))
    show "timeout (resolve opts) \<le> 0" using assms(2) by simp
    show "0 < interval (resolve opts)" using h by simp
    show "I (bodyRepeater Client None) w" using h by simp
    show "\<exists>resp body. a_err (req t w') = None \<and> a_resp (req t w') = Some resp \<and> \<not> IsError rt resp
          \<and> ReadAll (Body resp) = (body, None) \<and> (\<forall>v. fst (Unmarshal rt body v) = None)
          \<and> \<not> fst (c (resp\<lparr>Body := Reader body None\<rparr>) (a_world (req t w')))
          \<and> I (a_transport (req t w')) (snd (c (resp\<lparr>Body := Reader body None\<rparr>) (a_world (req t w'))))"
      if "I t w'" for t w'
      using h that by blast
  qed
qed

text \<open>
  The claim as stated fails: with a condition and \<open>WithTimeout(0)\<close>, a request that
  fails with \<open>context.DeadlineExceeded\<close> makes \<open>Do\<close> end with that error.
\<close>

theorem zero_timeout_deadline_counterexample:
  "Do test_runtime 1 (scripted (always timed_out)) None [WithCondition (Some never), WithTimeout 0] 0
     = Some (Return None (Some DeadlineExceeded)
         \<lparr>clock = 7, timeoutC = None, tickerC = None, transport = bodyRepeater Client None,
          out = None, world = 1, attempts = 1\<rparr>)
   \<and> cond (resolve [WithCondition (Some never), WithTimeout 0]) = Some never
   \<and> timeout (resolve [WithCondition (Some never), WithTimeout 0]) = 0"
  by (simp add: Do_first resolve_def start_def attempt_def Let_def scripted_def always_def
      timed_out_def after_call_def WithCondition_def WithTimeout_def)

text \<open>
  A server that always answers 200, a condition that never holds, \<open>WithTimeout(0)\<close>
  and the default interval: the call does not end, on any fuel.
\<close>

theorem zero_timeout_unbounded_witness:
  "(\<forall>fuel. Do test_runtime fuel (scripted (always (answer 200 ''{}'' 5))) None
       [WithCondition (Some never), WithTimeout 0] 0 = None)
   \<and> (\<forall>fuel r s. Do test_runtime fuel (scripted (always (answer 200 ''{}'' 5))) None
       [WithCondition (Some never), WithTimeout 0] 0 \<noteq> Some (Return r (Some DeadlineExceeded) s))
   \<and> timeoutC (start (resolve [WithCondition (Some never), WithTimeout 0]) (None :: bytes option) 0) = None"
proof -
  let ?opts = "[WithCondition (Some never), WithTimeout 0]"
  let ?req = "scripted (always (answer 200 ''{}'' 5))"
  have c: "cond (resolve ?opts) = Some never" and t: "timeout (resolve ?opts) = 0"
    and i: "0 < interval (resolve ?opts)"
    by (simp_all add: resolve_def WithCondition_def WithTimeout_def)
  have h: "(\<forall>t w'. a_err (?req t w') \<noteq> Some DeadlineExceeded)
      \<and> (\<forall>t w' resp. a_resp (?req t w') = Some resp \<longrightarrow> snd (ReadAll (Body resp)) \<noteq> Some DeadlineExceeded)
      \<and> (\<forall>body v. fst (Unmarshal test_runtime body v) \<noteq> Some DeadlineExceeded)"
    by (auto simp: scripted_def always_def answer_def test_runtime_def)
  have p: "\<forall>t w'. True \<longrightarrow>
     (\<exists>resp body. a_err (?req t w') = None \<and> a_resp (?req t w') = Some resp \<and> \<not> IsError test_runtime resp
        \<and> ReadAll (Body resp) = (body, None) \<and> (\<forall>v. fst (Unmarshal test_runtime body v) = None)
        \<and> \<not> fst (never (resp\<lparr>Body := Reader body None\<rparr>) (a_world (?req t w')))
        \<and> True)"
    by (simp add: scripted_def always_def answer_def test_runtime_def never_def pure_cond_def)
  note z = zero_timeout_unbounded [OF c t, where rt = test_runtime and req = ?req
        and dst = "None :: bytes option" and w = 0 and I = "\<lambda>t w'. True" and pre = "[]"]
  have 1: "\<forall>fuel. Do test_runtime fuel ?req None ?opts 0 = None"
    using z h p i by blast
  have 2: "\<forall>fuel r s. Do test_runtime fuel ?req None ?opts 0 \<noteq> Some (Return r (Some DeadlineExceeded) s)"
    using z h by blast
  have 3: "timeoutC (start (resolve ?opts) (None :: bytes option) 0) = None"
    using z by blast
  show ?thesis using 1 2 3 by blast
qed

section \<open>Eventual success\<close>

lemma div_step: "0 < (I::int) \<Longrightarrow> x \<le> now \<Longrightarrow> x + I * ((now - x) div I + 1) \<le> now + I"
proof -
  assume a: "0 < I" "x \<le> now"
  have "I * ((now - x) div I) + (now - x) mod I = now - x"
    by (rule mult_div_mod_eq)
  moreover have "0 \<le> (now - x) mod I"
    using a(1) by simp
  ultimately have "I * ((now - x) div I) \<le> now - x" by linarith
  then show ?thesis by (simp add: algebra_simps)
qed

lemma select_chan_Tick:
  assumes "0 < period tk" and "\<not> full tk" and "next_tick tk \<le> now + period tk"
    and "tc = None \<or> (\<exists>d. tc = Some d \<and> now + period tk < d)"
  shows "\<exists>now' tk'. select_chan pick now tc tk = (Tick, now', tk') \<and> now \<le> now'
      \<and> now' \<le> now + period tk \<and> period tk' = period tk \<and> \<not> full tk'
      \<and> next_tick tk' \<le> now' + period tk"
proof (cases "next_tick tk \<le> now")
  case True
  have "next_tick tk + period tk * ((now - next_tick tk) div period tk + 1) \<le> now + period tk"
    using div_step [OF assms(1) True] .
  then show ?thesis
    using True assms
    by (auto simp: select_chan_def advance_def Let_def split: option.splits)
next
  case False
  then show ?thesis
    using assms
    by (auto simp: select_chan_def advance_def Let_def split: option.splits)
qed

lemma wait_ticking:
  assumes "ticking I s"
    and "tickerC s \<noteq> None \<longrightarrow> timeoutC s = None \<or> (\<exists>d. timeoutC s = Some d \<and> clock s + I < d)"
  shows "\<exists>s1. wait rt s = Again s1 \<and> ticking I s1 \<and> clock s \<le> clock s1
     \<and> clock s1 \<le> clock s + (if attempts s = 0 then 0 else I)"
proof (cases "tickerC s")
  case None
  then show ?thesis using assms(1) by (simp add: wait_def ticking_def)
next
  case (Some tk)
  then have tk: "period tk = I" "0 < I" "\<not> full tk" "next_tick tk \<le> clock s + I" "0 < attempts s"
    using assms(1) by (simp_all add: ticking_def)
  have tc: "timeoutC s = None \<or> (\<exists>d. timeoutC s = Some d \<and> clock s + period tk < d)"
    using assms(2) Some tk(1) by simp
  obtain now' tk' where sel: "select_chan (pick_timeout rt (attempts s)) (clock s) (timeoutC s) tk = (Tick, now', tk')"
      "clock s \<le> now'" "now' \<le> clock s + period tk" "period tk' = period tk" "\<not> full tk'"
      "next_tick tk' \<le> now' + period tk"
    using select_chan_Tick [where tk = tk and now = "clock s" and tc = "timeoutC s"
        and pick = "pick_timeout rt (attempts s)"] tk tc
    by auto
  show ?thesis
    using Some sel tk by (simp add: wait_def ticking_def)
qed

lemma attempt_follows:
  fixes rt :: "'o runtime" and req :: "'w Request" and s :: "('o, 'w) state"
  assumes c: "cond ro = Some (pure_cond p)"
    and tk: "ticking (interval ro) s"
    and a: "a = req (transport s) (world s)" "a_err a = None" "a_resp a = Some resp"
    and good: "\<not> IsError rt resp" "ReadAll (Body resp) = (body, None)"
      "\<forall>v. fst (Unmarshal rt body v) = None"
    and I: "\<not> p (resp\<lparr>Body := Reader body None\<rparr>) \<longrightarrow> 0 < interval ro"
  shows "if p (resp\<lparr>Body := Reader body None\<rparr>)
         then \<exists>s'. attempt rt req ro s = Done (Return (Some (resp\<lparr>Body := Reader body None\<rparr>)) None s')
                \<and> attempts s' = Suc (attempts s) \<and> world s' = a_world a
                \<and> transport s' = a_transport a
         else \<exists>s'. attempt rt req ro s = Again s' \<and> attempts s' = Suc (attempts s)
                \<and> world s' = a_world a \<and> transport s' = a_transport a
                \<and> timeoutC s' = timeoutC s \<and> ticking (interval ro) s'
                \<and> clock s' = clock s + int (a_took a)"
proof -
  have d: "fst (decode rt body (out (after_call a s))) = None"
    using good(3) by (rule decode_ok)
  obtain dv where dv: "decode rt body (out (after_call a s)) = (None, dv)"
    using d by (cases "decode rt body (out (after_call a s))") auto
  show ?thesis
  proof (cases "p (resp\<lparr>Body := Reader body None\<rparr>)")
    case True
    then show ?thesis
      using c a good(1,2) dv
      by (simp add: attempt_def Let_def pure_cond_def after_call_def)
  next
    case False
    then have i: "0 < interval ro" using I by simp
    show ?thesis
    proof (cases "tickerC s")
      case None
      then show ?thesis
        using False c a good(1,2) dv i tk
        by (simp add: attempt_def Let_def pure_cond_def after_call_def NewTicker_def ticking_def)
    next
      case (Some t)
      then show ?thesis
        using False c a good(1,2) dv i tk
        by (simp add: attempt_def Let_def pure_cond_def after_call_def ticking_def)
    qed
  qed
qed

lemma spent_Suc: "spent script I (Suc n) = spent script I n + int (r_took (script n)) + I"
  by (simp add: spent_def algebra_simps)

lemma spent_mono: "0 \<le> I \<Longrightarrow> m \<le> n \<Longrightarrow> spent script I m \<le> spent script I n"
proof (induction n)
  case 0
  then show ?case by simp
next
  case (Suc n)
  show ?case
  proof (cases "m = Suc n")
    case True
    then show ?thesis by simp
  next
    case False
    then have "spent script I m \<le> spent script I n" using Suc by simp
    then show ?thesis using Suc.prems(1) by (simp add: spent_Suc)
  qed
qed

lemma loop_follows:
  fixes rt :: "'o runtime" and req :: "'w Request" and s :: "('o, 'w) state"
    and idx :: "'w \<Rightarrow> nat" and Inv :: "transport \<Rightarrow> 'w \<Rightarrow> bool"
    and script :: "nat \<Rightarrow> reply"
  assumes c: "cond ro = Some (pure_cond p)"
    and follows: "\<And>t w. Inv t w \<Longrightarrow>
          a_err (req t w) = r_err (script (idx w)) \<and> a_resp (req t w) = r_resp (script (idx w))
          \<and> a_took (req t w) = r_took (script (idx w)) \<and> idx (a_world (req t w)) = Suc (idx w)
          \<and> Inv (a_transport (req t w)) (a_world (req t w))"
    and good: "\<And>i. i < K \<Longrightarrow> r_err (script i) = None \<and> (\<exists>resp body. r_resp (script i) = Some resp
          \<and> \<not> IsError rt resp \<and> ReadAll (Body resp) = (body, None)
          \<and> (\<forall>v. fst (Unmarshal rt body v) = None)
          \<and> p (resp\<lparr>Body := Reader body None\<rparr>) = (Suc i = K))"
    and I: "1 < K \<longrightarrow> 0 < interval ro"
    and T: "timeout ro \<le> 0 \<or> spent script (interval ro) (K - 1) < timeout ro"
  shows "attempts s = n \<Longrightarrow> idx (world s) = n \<Longrightarrow> Inv (transport s) (world s) \<Longrightarrow> n < K
     \<Longrightarrow> K - n \<le> fuel \<Longrightarrow> ticking (interval ro) s
     \<Longrightarrow> timeoutC s = (if 0 < timeout ro then Some (timeout ro) else None)
     \<Longrightarrow> clock s + (if n = 0 then 0 else interval ro) \<le> spent script (interval ro) n
     \<Longrightarrow> \<exists>resp body s'. r_resp (script (K - 1)) = Some resp \<and> ReadAll (Body resp) = (body, None)
           \<and> loop rt req ro fuel s = Some (Return (Some (resp\<lparr>Body := Reader body None\<rparr>)) None s')
           \<and> attempts s' = K \<and> idx (world s') = K"
proof (induction fuel arbitrary: s n)
  case 0
  then show ?case by simp
next
  case (Suc fuel)
  let ?I = "interval ro"
  obtain resp body where g: "r_err (script n) = None" "r_resp (script n) = Some resp"
      "\<not> IsError rt resp" "ReadAll (Body resp) = (body, None)" "\<forall>v. fst (Unmarshal rt body v) = None"
      "p (resp\<lparr>Body := Reader body None\<rparr>) = (Suc n = K)"
    using good [OF Suc.prems(4)] by blast
  have tc: "tickerC s \<noteq> None \<longrightarrow> timeoutC s = None \<or> (\<exists>d. timeoutC s = Some d \<and> clock s + ?I < d)"
  proof (intro impI)
    assume "tickerC s \<noteq> None"
    then have n0: "0 < n" and i0: "0 < ?I"
      using Suc.prems(6,1) by (auto simp: ticking_def split: option.splits)
    have "clock s + ?I \<le> spent script ?I n" using Suc.prems(8) n0 by simp
    also have "\<dots> \<le> spent script ?I (K - 1)"
      using spent_mono [of ?I n "K - 1" script] i0 Suc.prems(4) by simp
    finally have "clock s + ?I \<le> spent script ?I (K - 1)" .
    then show "timeoutC s = None \<or> (\<exists>d. timeoutC s = Some d \<and> clock s + ?I < d)"
      using T Suc.prems(7) by auto
  qed
  obtain s1 where s1: "wait rt s = Again s1" "ticking ?I s1" "clock s \<le> clock s1"
      "clock s1 \<le> clock s + (if attempts s = 0 then 0 else ?I)"
    using wait_ticking [OF Suc.prems(6) tc] by blast
  have f1: "attempts s1 = n" "idx (world s1) = n" "timeoutC s1 = timeoutC s"
      "Inv (transport s1) (world s1)"
    using wait_attempts [OF s1(1)] Suc.prems(1,2,3) by simp_all
  let ?a = "req (transport s1) (world s1)"
  have fa: "a_err ?a = None" "a_resp ?a = Some resp" "a_took ?a = r_took (script n)"
      "idx (a_world ?a) = Suc n" "Inv (a_transport ?a) (a_world ?a)"
    using follows [OF f1(4)] f1(2) g(1,2) by simp_all
  have it: "iteration rt req ro s = attempt rt req ro s1"
    using s1(1) by (simp add: iteration_def)
  have Ip: "\<not> p (resp\<lparr>Body := Reader body None\<rparr>) \<longrightarrow> 0 < ?I"
    using g(6) I Suc.prems(4) by auto
  note att = attempt_follows [where rt = rt and s = s1 and req = req and a = ?a,
      OF c s1(2) refl fa(1,2) g(3-5) Ip]
  show ?case
  proof (cases "Suc n = K")
    case True
    then have "p (resp\<lparr>Body := Reader body None\<rparr>)" using g(6) by simp
    then obtain s' where s': "attempt rt req ro s1 = Done (Return (Some (resp\<lparr>Body := Reader body None\<rparr>)) None s')"
        "attempts s' = Suc (attempts s1)" "world s' = a_world ?a"
      using att by auto
    have k: "K - 1 = n" using True by auto
    have "r_resp (script (K - 1)) = Some resp \<and> ReadAll (Body resp) = (body, None)
           \<and> loop rt req ro (Suc fuel) s = Some (Return (Some (resp\<lparr>Body := Reader body None\<rparr>)) None s')
           \<and> attempts s' = K \<and> idx (world s') = K"
      using it s' g(2,4) True f1(1) k fa(4) by simp
    then show ?thesis by blast
  next
    case False
    then have np: "\<not> p (resp\<lparr>Body := Reader body None\<rparr>)" using g(6) by simp
    then obtain s' where s': "attempt rt req ro s1 = Again s'"
        "attempts s' = Suc (attempts s1)" "world s' = a_world ?a" "transport s' = a_transport ?a"
        "timeoutC s' = timeoutC s1" "ticking ?I s'" "clock s' = clock s1 + int (a_took ?a)"
      using att by auto
    have i0: "0 < ?I" using np Ip by simp
    have cl: "clock s' + (if Suc n = 0 then 0 else ?I) \<le> spent script ?I (Suc n)"
      using s'(7) fa(3) s1(4) Suc.prems(1,8) by (auto simp: spent_Suc split: if_splits)
    have "\<exists>resp body s''. r_resp (script (K - 1)) = Some resp \<and> ReadAll (Body resp) = (body, None)
           \<and> loop rt req ro fuel s' = Some (Return (Some (resp\<lparr>Body := Reader body None\<rparr>)) None s'')
           \<and> attempts s'' = K \<and> idx (world s'') = K"
    proof (rule Suc.IH [where n = "Suc n"])
      show "attempts s' = Suc n" using s'(2) f1(1) by simp
      show "idx (world s') = Suc n" using s'(3) fa(4) by simp
      show "Inv (transport s') (world s')" using s'(3,4) fa(5) by simp
      show "Suc n < K" using False Suc.prems(4) by simp
      show "K - Suc n \<le> fuel" using Suc.prems(5) by simp
      show "ticking ?I s'" by (rule s'(6))
      show "timeoutC s' = (if 0 < timeout ro then Some (timeout ro) else None)"
        using s'(5) f1(3) Suc.prems(7) by simp
      show "clock s' + (if Suc n = 0 then 0 else ?I) \<le> spent script ?I (Suc n)" by (rule cl)
    qed
    then show ?thesis using it s'(1) by simp
  qed
qed

lemma Do_follows:
  fixes rt :: "'o runtime" and req :: "'w Request"
    and idx :: "'w \<Rightarrow> nat" and Inv :: "transport \<Rightarrow> 'w \<Rightarrow> bool"
    and script :: "nat \<Rightarrow> reply"
  assumes c: "cond (resolve opts) = Some (pure_cond p)"
    and K: "1 \<le> K" "K \<le> fuel"
    and init: "idx w = 0" "Inv (bodyRepeater Client None) w"
    and follows: "\<And>t w. Inv t w \<Longrightarrow>
          a_err (req t w) = r_err (script (idx w)) \<and> a_resp (req t w) = r_resp (script (idx w))
          \<and> a_took (req t w) = r_took (script (idx w)) \<and> idx (a_world (req t w)) = Suc (idx w)
          \<and> Inv (a_transport (req t w)) (a_world (req t w))"
    and good: "\<forall>i<K. r_err (script i) = None \<and> (\<exists>resp body. r_resp (script i) = Some resp
          \<and> \<not> IsError rt resp \<and> ReadAll (Body resp) = (body, None)
          \<and> (\<forall>v. fst (Unmarshal rt body v) = None)
          \<and> p (resp\<lparr>Body := Reader body None\<rparr>) = (Suc i = K))"
    and I: "1 < K \<longrightarrow> 0 < interval (resolve opts)"
    and T: "timeout (resolve opts) \<le> 0
       \<or> (\<Sum>i<K - 1. int (r_took (script i))) + int (K - 1) * interval (resolve opts) < timeout (resolve opts)"
  shows "\<exists>resp body s. r_resp (script (K - 1)) = Some resp \<and> ReadAll (Body resp) = (body, None)
     \<and> Do rt fuel req dst opts w = Some (Return (Some (resp\<lparr>Body := Reader body None\<rparr>)) None s)
     \<and> attempts s = K \<and> idx (world s) = K"
proof -
  let ?ro = "resolve opts"
  let ?s0 = "start ?ro dst w"
  have "\<exists>resp body s'. r_resp (script (K - 1)) = Some resp \<and> ReadAll (Body resp) = (body, None)
           \<and> loop rt req ?ro fuel ?s0 = Some (Return (Some (resp\<lparr>Body := Reader body None\<rparr>)) None s')
           \<and> attempts s' = K \<and> idx (world s') = K"
  proof (rule loop_follows [where n = 0 and p = p and K = K and Inv = Inv and idx = idx and script = script])
    show "cond ?ro = Some (pure_cond p)" by (rule c)
    show "a_err (req t w) = r_err (script (idx w)) \<and> a_resp (req t w) = r_resp (script (idx w))
          \<and> a_took (req t w) = r_took (script (idx w)) \<and> idx (a_world (req t w)) = Suc (idx w)
          \<and> Inv (a_transport (req t w)) (a_world (req t w))" if "Inv t w" for t w
      using follows that by blast
    show "r_err (script i) = None \<and> (\<exists>resp body. r_resp (script i) = Some resp
          \<and> \<not> IsError rt resp \<and> ReadAll (Body resp) = (body, None)
          \<and> (\<forall>v. fst (Unmarshal rt body v) = None)
          \<and> p (resp\<lparr>Body := Reader body None\<rparr>) = (Suc i = K))" if "i < K" for i
      using good that by blast
    show "1 < K \<longrightarrow> 0 < interval ?ro" by (rule I)
    show "timeout ?ro \<le> 0 \<or> spent script (interval ?ro) (K - 1) < timeout ?ro"
      using T by (simp add: spent_def)
    show "attempts ?s0 = 0" by (simp add: start_simps)
    show "idx (world ?s0) = 0" using init(1) by (simp add: start_simps)
    show "Inv (transport ?s0) (world ?s0)" using init(2) c by (simp add: start_simps)
    show "0 < K" using K(1) by simp
    show "K - 0 \<le> fuel" using K(2) by simp
    show "ticking (interval ?ro) ?s0" by (simp add: ticking_def start_simps)
    show "timeoutC ?s0 = (if 0 < timeout ?ro then Some (timeout ?ro) else None)"
      using c by (simp add: start_simps)
    show "clock ?s0 + (if (0::nat) = 0 then 0 else interval ?ro) \<le> spent script (interval ?ro) 0"
      by (simp add: start_simps spent_def)
  qed
  then show ?thesis by (simp add: Do_def)
qed

text \<open>
  C1. Let the first \<open>K\<close> replies of the server (\<open>K \<ge> 1\<close>) go through (no
  transport error, no error status, a body that reads and decodes), and let the
  condition be false on the first \<open>K - 1\<close> responses and true on the \<open>K\<close>-th. Let the
  interval be positive if a retry is needed, and let the timeout be off (not
  positive) or longer than the first \<open>K - 1\<close> attempts take plus \<open>K - 1\<close>
  intervals. Then \<open>Do\<close>, on any fuel of at least \<open>K\<close> passes, returns the \<open>K\<close>-th
  response (with its body put back) and no error, after exactly \<open>K\<close> calls of the
  request, whatever the select picks when both channels are ready.
\<close>

theorem eventual_success:
  fixes script :: "nat \<Rightarrow> reply"
  assumes "cond (resolve opts) = Some (pure_cond p)"
    and "1 \<le> K" and "K \<le> fuel"
    and "\<forall>i<K. r_err (script i) = None \<and> (\<exists>resp body. r_resp (script i) = Some resp
          \<and> \<not> IsError rt resp \<and> ReadAll (Body resp) = (body, None)
          \<and> (\<forall>v. fst (Unmarshal rt body v) = None)
          \<and> p (resp\<lparr>Body := Reader body None\<rparr>) = (Suc i = K))"
    and "1 < K \<longrightarrow> 0 < interval (resolve opts)"
    and "timeout (resolve opts) \<le> 0
       \<or> (\<Sum>i<K - 1. int (r_took (script i))) + int (K - 1) * interval (resolve opts) < timeout (resolve opts)"
  shows "\<exists>resp body s. r_resp (script (K - 1)) = Some resp \<and> ReadAll (Body resp) = (body, None)
     \<and> Do rt fuel (scripted script) dst opts 0 = Some (Return (Some (resp\<lparr>Body := Reader body None\<rparr>)) None s)
     \<and> attempts s = K \<and> world s = K"
proof -
  have "\<exists>resp body s. r_resp (script (K - 1)) = Some resp \<and> ReadAll (Body resp) = (body, None)
     \<and> Do rt fuel (scripted script) dst opts 0 = Some (Return (Some (resp\<lparr>Body := Reader body None\<rparr>)) None s)
     \<and> attempts s = K \<and> (\<lambda>n. n) (world s) = K"
  proof (rule Do_follows [where Inv = "\<lambda>t w. True" and idx = "\<lambda>n. n" and p = p])
    show "cond (resolve opts) = Some (pure_cond p)" by (rule assms(1))
    show "1 \<le> K" "K \<le> fuel" by (rule assms(2), rule assms(3))
    show "(0::nat) = 0" "True" by simp_all
    show "a_err (scripted script t w) = r_err (script w)
        \<and> a_resp (scripted script t w) = r_resp (script w)
        \<and> a_took (scripted script t w) = r_took (script w)
        \<and> a_world (scripted script t w) = Suc w \<and> True" for t w
      by (simp add: scripted_def)
    show "\<forall>i<K. r_err (script i) = None \<and> (\<exists>resp body. r_resp (script i) = Some resp
          \<and> \<not> IsError rt resp \<and> ReadAll (Body resp) = (body, None)
          \<and> (\<forall>v. fst (Unmarshal rt body v) = None)
          \<and> p (resp\<lparr>Body := Reader body None\<rparr>) = (Suc i = K))"
      by (rule assms(4))
    show "1 < K \<longrightarrow> 0 < interval (resolve opts)" by (rule assms(5))
    show "timeout (resolve opts) \<le> 0
       \<or> (\<Sum>i<K - 1. int (r_took (script i))) + int (K - 1) * interval (resolve opts) < timeout (resolve opts)"
      by (rule assms(6))
  qed
  then show ?thesis by simp
qed

text \<open>
  The server answers \<open>wait\<close> twice and then \<open>ready\<close>, 5 ns each; the interval is
  10 ns and the timeout 40 ns, more than the 30 ns that two attempts and two waits
  can take. The call returns the third response after three attempts.
\<close>

theorem eventual_success_witness:
  "\<exists>s. Do test_runtime 3
        (scripted (\<lambda>i. if i < 2 then answer 200 ''wait'' 5 else answer 200 ''ready'' 5)) None
        [WithCondition (Some (pure_cond (\<lambda>resp. Body resp = Reader ''ready'' None))),
         WithTimeout 40, WithInterval 10] 0
      = Some (Return (Some \<lparr>StatusCode = 200, Body = Reader ''ready'' None\<rparr>) None s)
     \<and> attempts s = 3 \<and> world s = 3"
proof -
  let ?script = "\<lambda>i::nat. if i < 2 then answer 200 ''wait'' 5 else answer 200 ''ready'' 5"
  let ?p = "\<lambda>resp. Body resp = Reader ''ready'' None"
  let ?opts = "[WithCondition (Some (pure_cond ?p)), WithTimeout 40, WithInterval 10] :: nat RequestOption list"
  have ro: "cond (resolve ?opts) = Some (pure_cond ?p)" "interval (resolve ?opts) = 10"
    "timeout (resolve ?opts) = 40"
    by (simp_all add: resolve_def WithCondition_def WithTimeout_def WithInterval_def)
  have g: "\<forall>i<3. r_err (?script i) = None \<and> (\<exists>resp body. r_resp (?script i) = Some resp
          \<and> \<not> IsError test_runtime resp \<and> ReadAll (Body resp) = (body, None)
          \<and> (\<forall>v. fst (Unmarshal test_runtime body v) = None)
          \<and> ?p (resp\<lparr>Body := Reader body None\<rparr>) = (Suc i = 3))"
    by (auto simp: answer_def test_runtime_def)
  have t: "timeout (resolve ?opts) \<le> 0
       \<or> (\<Sum>i<3 - 1. int (r_took (?script i))) + int (3 - 1) * interval (resolve ?opts) < timeout (resolve ?opts)"
    by (simp add: ro answer_def numeral_2_eq_2)
  have i: "1 < (3::nat) \<longrightarrow> 0 < interval (resolve ?opts)" by (simp add: ro)
  show ?thesis
    using eventual_success [where K = 3 and fuel = 3 and rt = test_runtime and script = ?script
        and dst = None and opts = ?opts and p = ?p, OF ro(1) _ _ g i t]
    by (auto simp: answer_def)
qed

section \<open>Replaying the request body\<close>

lemma attempt_pure_frame:
  fixes s :: "('o, 'w) state"
  assumes "cond ro = Some (pure_cond p)" and "a = req (transport s) (world s)"
  shows "(case attempt rt req ro s of
            Done res \<Rightarrow> world (final res) = a_world a \<and> attempts (final res) = Suc (attempts s)
               \<and> transport (final res) = a_transport a
          | Again s' \<Rightarrow> world s' = a_world a \<and> attempts s' = Suc (attempts s)
               \<and> transport s' = a_transport a)"
  using assms
  by (simp add: attempt_def Let_def after_call_def pure_cond_def split: option.split prod.split)

lemma body_request_replaying:
  assumes "replaying b s" and "a = body_request script (transport s) (world s)"
  shows "wire (a_world a) = replicate (Suc (attempts s)) b \<and> a_transport a = bodyRepeater Client (Some b)"
  using assms
  by (auto simp: replaying_def body_request_def replicate_append_same split: if_splits)

text \<open>Without the wrapper a second execution finds the reader at its end and sends nothing.\<close>

lemma plain_client_consumes:
  "Perform Client (Some (Reader b None)) = (Delivered b, Client, Some (Reader [] None))
   \<and> Perform Client (Some (Reader [] None)) = (Delivered [], Client, Some (Reader [] None))"
  by simp

lemma body_replay_invariant:
  fixes rt :: "'o runtime"
  assumes "cond (resolve opts) = Some (pure_cond p)"
    and "Do rt fuel (body_request script) dst opts (fresh b) = Some res"
  shows "wire (world (final res)) = replicate (attempts (final res)) b"
proof -
  let ?ro = "resolve opts"
  let ?req = "body_request script"
  have l: "loop rt ?req ?ro fuel (start ?ro dst (fresh b)) = Some res"
    using assms(2) by (simp add: Do_def)
  have step: "case attempt rt ?req ?ro s of
        Done res \<Rightarrow> replaying b (final res)
      | Again s' \<Rightarrow> replaying b s'" if "replaying b s" for s :: "('o, harness) state"
  proof -
    let ?a = "?req (transport s) (world s)"
    note f = attempt_pure_frame [where rt = rt and req = ?req and s = s, OF assms(1) refl]
    note r = body_request_replaying [OF that refl, where script = script]
    show ?thesis
      using f r by (auto simp: replaying_def split: step.splits)
  qed
  show ?thesis
  proof (rule loop_rule [OF l, where Inv = "replaying b"
        and Q = "\<lambda>res. wire (world (final res)) = replicate (attempts (final res)) b"])
    show "replaying b (start ?ro dst (fresh b))"
      using assms(1) by (simp add: replaying_def start_simps fresh_def)
  next
    fix s s' :: "('o, harness) state"
    assume inv: "replaying b s" and it: "iteration rt ?req ?ro s = Again s'"
    then obtain s1 where s1: "wait rt s = Again s1" "attempt rt ?req ?ro s1 = Again s'"
      by (cases "wait rt s") (auto simp: iteration_def)
    have "replaying b s1" using wait_attempts [OF s1(1)] inv by (simp add: replaying_def)
    then show "replaying b s'" using step [of s1] s1(2) by simp
  next
    fix s :: "('o, harness) state" and r
    assume inv: "replaying b s" and it: "iteration rt ?req ?ro s = Done r"
    show "wire (world (final r)) = replicate (attempts (final r)) b"
    proof (cases "wait rt s")
      case (Done r')
      then have "r = r'" using it by (simp add: iteration_def)
      then show ?thesis using wait_Done [OF Done] inv by (auto simp: replaying_def)
    next
      case (Again s1)
      then have a: "attempt rt ?req ?ro s1 = Done r" using it by (simp add: iteration_def)
      have "replaying b s1" using wait_attempts [OF Again] inv by (simp add: replaying_def)
      then show ?thesis using step [of s1] a by (simp add: replaying_def)
    qed
  qed
qed

lemma body_request_follows:
  assumes "delivering t h"
  shows "a_err (body_request script t h) = r_err (script (calls h))
       \<and> a_resp (body_request script t h) = r_resp (script (calls h))
       \<and> a_took (body_request script t h) = r_took (script (calls h))
       \<and> calls (a_world (body_request script t h)) = Suc (calls h)
       \<and> delivering (a_transport (body_request script t h)) (a_world (body_request script t h))"
  using assms
  by (auto simp: delivering_def body_request_def
      split: transport.splits option.splits reader.splits)

text \<open>
  C5. A request with body \<open>b\<close> (non-empty or not) is executed by \<open>Do\<close> with a
  condition. However the call ends, after however many attempts, each attempt put
  exactly the bytes \<open>b\<close> on the wire: the log of delivered bodies is \<open>b\<close> repeated
  once for each attempt. And when the condition first holds on the \<open>K\<close>-th
  response of a server whose first \<open>K\<close> replies go through (interval and timeout
  as in C1), the call does return, after \<open>K\<close> attempts that each delivered \<open>b\<close>.
\<close>

theorem body_replay_fidelity:
  fixes rt :: "'o runtime" and script :: "nat \<Rightarrow> reply"
  assumes "cond (resolve opts) = Some (pure_cond p)"
  shows "(Do rt fuel (body_request script) dst opts (fresh b) = Some res
           \<longrightarrow> wire (world (final res)) = replicate (attempts (final res)) b)
       \<and> (1 \<le> K \<and> K \<le> fuel
           \<and> (\<forall>i<K. r_err (script i) = None \<and> (\<exists>resp body. r_resp (script i) = Some resp
                 \<and> \<not> IsError rt resp \<and> ReadAll (Body resp) = (body, None)
                 \<and> (\<forall>v. fst (Unmarshal rt body v) = None)
                 \<and> p (resp\<lparr>Body := Reader body None\<rparr>) = (Suc i = K)))
           \<and> (1 < K \<longrightarrow> 0 < interval (resolve opts))
           \<and> (timeout (resolve opts) \<le> 0
               \<or> (\<Sum>i<K - 1. int (r_took (script i))) + int (K - 1) * interval (resolve opts)
                    < timeout (resolve opts))
           \<longrightarrow> (\<exists>resp body s. r_resp (script (K - 1)) = Some resp \<and> ReadAll (Body resp) = (body, None)
                 \<and> Do rt fuel (body_request script) dst opts (fresh b)
                     = Some (Return (Some (resp\<lparr>Body := Reader body None\<rparr>)) None s)
                 \<and> attempts s = K \<and> wire (world s) = replicate K b))"
proof (intro conjI impI)
  assume "Do rt fuel (body_request script) dst opts (fresh b) = Some res"
  then show "wire (world (final res)) = replicate (attempts (final res)) b"
    using body_replay_invariant [OF assms] by blast
next
  assume h: "1 \<le> K \<and> K \<le> fuel
           \<and> (\<forall>i<K. r_err (script i) = None \<and> (\<exists>resp body. r_resp (script i) = Some resp
                 \<and> \<not> IsError rt resp \<and> ReadAll (Body resp) = (body, None)
                 \<and> (\<forall>v. fst (Unmarshal rt body v) = None)
                 \<and> p (resp\<lparr>Body := Reader body None\<rparr>) = (Suc i = K)))
           \<and> (1 < K \<longrightarrow> 0 < interval (resolve opts))
           \<and> (timeout (resolve opts) \<le> 0
               \<or> (\<Sum>i<K - 1. int (r_took (script i))) + int (K - 1) * interval (resolve opts)
                    < timeout (resolve opts))"
  have "\<exists>resp body s. r_resp (script (K - 1)) = Some resp \<and> ReadAll (Body resp) = (body, None)
     \<and> Do rt fuel (body_request script) dst opts (fresh b)
         = Some (Return (Some (resp\<lparr>Body := Reader body None\<rparr>)) None s)
     \<and> attempts s = K \<and> calls (world s) = K"
  proof (rule Do_follows [where Inv = delivering and idx = calls and p = p])
    show "cond (resolve opts) = Some (pure_cond p)" by (rule assms)
    show "1 \<le> K" "K \<le> fuel" using h by simp_all
    show "calls (fresh b) = 0" by (simp add: fresh_def)
    show "delivering (bodyRepeater Client None) (fresh b)" by (simp add: delivering_def fresh_def)
    show "a_err (body_request script t w) = r_err (script (calls w))
        \<and> a_resp (body_request script t w) = r_resp (script (calls w))
        \<and> a_took (body_request script t w) = r_took (script (calls w))
        \<and> calls (a_world (body_request script t w)) = Suc (calls w)
        \<and> delivering (a_transport (body_request script t w)) (a_world (body_request script t w))"
      if "delivering t w" for t w
      using that by (rule body_request_follows)
    show "\<forall>i<K. r_err (script i) = None \<and> (\<exists>resp body. r_resp (script i) = Some resp
                 \<and> \<not> IsError rt resp \<and> ReadAll (Body resp) = (body, None)
                 \<and> (\<forall>v. fst (Unmarshal rt body v) = None)
                 \<and> p (resp\<lparr>Body := Reader body None\<rparr>) = (Suc i = K))"
      using h by blast
    show "1 < K \<longrightarrow> 0 < interval (resolve opts)" using h by blast
    show "timeout (resolve opts) \<le> 0
               \<or> (\<Sum>i<K - 1. int (r_took (script i))) + int (K - 1) * interval (resolve opts)
                    < timeout (resolve opts)"
      using h by blast
  qed
  then obtain resp body s where r: "r_resp (script (K - 1)) = Some resp" "ReadAll (Body resp) = (body, None)"
      "Do rt fuel (body_request script) dst opts (fresh b)
         = Some (Return (Some (resp\<lparr>Body := Reader body None\<rparr>)) None s)"
      "attempts s = K"
    by blast
  have "wire (world s) = replicate (attempts s) b"
    using body_replay_invariant [OF assms r(3)] by simp
  then show "\<exists>resp body s. r_resp (script (K - 1)) = Some resp \<and> ReadAll (Body resp) = (body, None)
                 \<and> Do rt fuel (body_request script) dst opts (fresh b)
                     = Some (Return (Some (resp\<lparr>Body := Reader body None\<rparr>)) None s)
                 \<and> attempts s = K \<and> wire (world s) = replicate K b"
    using r by auto
qed

text \<open>A condition that holds on the third response: three attempts, three times the same body.\<close>

theorem body_replay_fidelity_witness:
  "\<exists>s. Do test_runtime 3
        (body_request (\<lambda>i. if i < 2 then answer 200 ''wait'' 5 else answer 200 ''ready'' 5)) None
        [WithCondition (Some (pure_cond (\<lambda>resp. Body resp = Reader ''ready'' None))),
         WithTimeout 40, WithInterval 10] (fresh ''q=1'')
      = Some (Return (Some \<lparr>StatusCode = 200, Body = Reader ''ready'' None\<rparr>) None s)
     \<and> attempts s = 3 \<and> wire (world s) = [''q=1'', ''q=1'', ''q=1'']"
proof -
  let ?script = "\<lambda>i::nat. if i < 2 then answer 200 ''wait'' 5 else answer 200 ''ready'' 5"
  let ?p = "\<lambda>resp. Body resp = Reader ''ready'' None"
  let ?opts = "[WithCondition (Some (pure_cond ?p)), WithTimeout 40, WithInterval 10] :: harness RequestOption list"
  have ro: "cond (resolve ?opts) = Some (pure_cond ?p)" "interval (resolve ?opts) = 10"
    "timeout (resolve ?opts) = 40"
    by (simp_all add: resolve_def WithCondition_def WithTimeout_def WithInterval_def)
  have g: "\<forall>i<3. r_err (?script i) = None \<and> (\<exists>resp body. r_resp (?script i) = Some resp
          \<and> \<not> IsError test_runtime resp \<and> ReadAll (Body resp) = (body, None)
          \<and> (\<forall>v. fst (Unmarshal test_runtime body v) = None)
          \<and> ?p (resp\<lparr>Body := Reader body None\<rparr>) = (Suc i = 3))"
    by (auto simp: answer_def test_runtime_def)
  have t: "timeout (resolve ?opts) \<le> 0
       \<or> (\<Sum>i<3 - 1. int (r_took (?script i))) + int (3 - 1) * interval (resolve ?opts) < timeout (resolve ?opts)"
    by (simp add: ro answer_def numeral_2_eq_2)
  have i: "1 < (3::nat) \<longrightarrow> 0 < interval (resolve ?opts)" by (simp add: ro)
  have "\<exists>resp body s. r_resp (?script (3 - 1)) = Some resp \<and> ReadAll (Body resp) = (body, None)
      \<and> Do test_runtime 3 (body_request ?script) None ?opts (fresh ''q=1'')
          = Some (Return (Some (resp\<lparr>Body := Reader body None\<rparr>)) None s)
      \<and> attempts s = 3 \<and> wire (world s) = replicate 3 ''q=1''"
    by (rule mp [OF conjunct2 [OF body_replay_fidelity [OF ro(1), where K = 3 and fuel = 3
            and rt = test_runtime and script = ?script and dst = None and b = "''q=1''"]]])
       (intro conjI, simp, simp, rule g, rule i, rule t)
  then show ?thesis by (auto simp: answer_def numeral_3_eq_3)
qed

section \<open>Query builders\<close>

lemma encodeQueryJSON_single: "encodeQueryJSON k v = JObject [(k, v)]"
  by (simp add: encodeQueryJSON_def go_map_def)

text \<open>
  C9. Each of the five builders marshals to an object with the single key that
  names the query kind: \<open>bool\<close>, \<open>exists\<close>, \<open>term\<close>, \<open>terms\<close>, \<open>match_phrase\<close>.
  A boost of 0 and a minimum-should-match of 0 leave no member in the output: the
  bool query then holds only its non-empty clause lists, the term query only
  \<open>value\<close>, the terms query only the field; values that are not 0 are written.
  \<open>TermQuery{Field: "status", Value: "ok", Boost: 0}\<close> marshals to
  \<open>{"term":{"status":{"value":"ok"}}}\<close>.
\<close>

theorem query_builders_single_key:
  \<open>(\<exists>v. BoolQuery_MarshalJSON bq = JObject [(''bool'', v)])
   \<and> ExistsQuery_MarshalJSON eq
       = JObject [(''exists'', JObject [(''field'', JString (ExistsQuery.Field eq))])]
   \<and> (\<exists>v. TermQuery_MarshalJSON tq = JObject [(''term'', JObject [(TermQuery.Field tq, v)])])
   \<and> (\<exists>v. TermsQuery_MarshalJSON tsq = JObject [(''terms'', v)])
   \<and> MatchPhraseQuery_MarshalJSON mq
       = JObject [(''match_phrase'', JObject [(MatchPhraseQuery.Field mq, MatchPhraseQuery.Value mq)])]
   \<and> BoolQuery_MarshalJSON (bq\<lparr>MinimumShouldMatch := 0, BoolQuery.Boost := 0\<rparr>)
       = JObject [(''bool'', JObject (omitempty ''filter'' (Filter bq) @ omitempty ''must'' (Must bq)
            @ omitempty ''must_not'' (MustNot bq) @ omitempty ''should'' (Should bq)))]
   \<and> TermQuery_MarshalJSON (tq\<lparr>TermQuery.Boost := 0\<rparr>)
       = JObject [(''term'', JObject [(TermQuery.Field tq, JObject [(''value'', TermQuery.Value tq)])])]
   \<and> TermsQuery_MarshalJSON (tsq\<lparr>TermsQuery.Boost := 0\<rparr>)
       = JObject [(''terms'', JObject [(TermsQuery.Field tsq, slice_json (Values tsq))])]
   \<and> (TermQuery.Boost tq \<noteq> 0 \<longrightarrow> TermQuery_MarshalJSON tq
       = JObject [(''term'', JObject [(TermQuery.Field tq,
            JObject [(''value'', TermQuery.Value tq), (''boost'', JNumber (TermQuery.Boost tq))])])])
   \<and> (MinimumShouldMatch bq \<noteq> 0 \<and> BoolQuery.Boost bq \<noteq> 0 \<longrightarrow> BoolQuery_MarshalJSON bq
       = JObject [(''bool'', JObject (omitempty ''filter'' (Filter bq) @ omitempty ''must'' (Must bq)
            @ omitempty ''must_not'' (MustNot bq) @ omitempty ''should'' (Should bq)
            @ [(''minimum_should_match'', JNumber (of_int (MinimumShouldMatch bq))),
               (''boost'', JNumber (BoolQuery.Boost bq))]))])
   \<and> TermQuery_MarshalJSON \<lparr>TermQuery.Field = ''status'', TermQuery.Value = JString ''ok'', TermQuery.Boost = 0\<rparr>
       = JObject [(''term'', JObject [(''status'', JObject [(''value'', JString ''ok'')])])]
   \<and> render (TermQuery_MarshalJSON
         \<lparr>TermQuery.Field = ''status'', TermQuery.Value = JString ''ok'', TermQuery.Boost = 0\<rparr>)
       = Some ''{"term":{"status":{"value":"ok"}}}''\<close>
proof (intro conjI impI)
  show \<open>render (TermQuery_MarshalJSON
         \<lparr>TermQuery.Field = ''status'', TermQuery.Value = JString ''ok'', TermQuery.Boost = 0\<rparr>)
       = Some ''{"term":{"status":{"value":"ok"}}}''\<close>
    by (simp add: TermQuery_MarshalJSON_def encodeQueryJSON_single go_map_def quote_def plain_def)
qed (simp_all add: BoolQuery_MarshalJSON_def ExistsQuery_MarshalJSON_def TermQuery_MarshalJSON_def
      TermsQuery_MarshalJSON_def MatchPhraseQuery_MarshalJSON_def encodeQueryJSON_single go_map_def
      Let_def)

text \<open>A term query with boost 1.5, a bool query with both numbers set, and one with neither.\<close>

theorem query_builders_single_key_witness:
  \<open>TermQuery_MarshalJSON \<lparr>TermQuery.Field = ''status'', TermQuery.Value = JString ''ok'', TermQuery.Boost = 3 / 2\<rparr>
     = JObject [(''term'', JObject [(''status'',
          JObject [(''value'', JString ''ok''), (''boost'', JNumber (3 / 2))])])]
   \<and> BoolQuery_MarshalJSON \<lparr>Filter = Some [JString ''a''], Must = None, MustNot = Some [], Should = None,
        MinimumShouldMatch = 1, BoolQuery.Boost = 2\<rparr>
     = JObject [(''bool'', JObject [(''filter'', JArray [JString ''a'']),
          (''minimum_should_match'', JNumber 1), (''boost'', JNumber 2)])]
   \<and> render (BoolQuery_MarshalJSON \<lparr>Filter = Some [JString ''a''], Must = None, MustNot = Some [],
        Should = None, MinimumShouldMatch = 0, BoolQuery.Boost = 0\<rparr>)
     = Some ''{"bool":{"filter":["a"]}}''\<close>
proof -
  let ?tq = "\<lparr>TermQuery.Field = ''status'', TermQuery.Value = JString ''ok'', TermQuery.Boost = 3 / 2\<rparr>"
  let ?bq = "\<lparr>Filter = Some [JString ''a''], Must = None, MustNot = Some [], Should = None,
        MinimumShouldMatch = 1, BoolQuery.Boost = 2\<rparr>"
  show ?thesis
    using query_builders_single_key [where tq = ?tq and bq = ?bq]
    by (simp add: omitempty_def quote_def plain_def)
qed

section \<open>Calls that do not return\<close>

text \<open>
  The claim C8 as stated, for every call, fails: with \<open>WithInterval(0)\<close> a call
  whose first condition check fails panics, and with \<open>WithTimeout(0)\<close> and a
  condition that never holds a call never returns. In both the caller gets neither
  a response nor an error.
\<close>

theorem Do_without_return_counterexample:
  "Do test_runtime 1 (scripted (always (answer 200 ''{}'' 5))) None
      [WithCondition (Some never), WithInterval 0] 0
     = Some (Panic ''non-positive interval for NewTicker''
         \<lparr>clock = 5, timeoutC = Some 60000000000, tickerC = None,
          transport = bodyRepeater Client None, out = None, world = 1, attempts = 1\<rparr>)
   \<and> (\<forall>fuel. Do test_runtime fuel (scripted (always (answer 200 ''{}'' 5))) None
      [WithCondition (Some never), WithTimeout 0] 0 = None)"
proof (intro conjI allI)
  show "Do test_runtime 1 (scripted (always (answer 200 ''{}'' 5))) None
      [WithCondition (Some never), WithInterval 0] 0
     = Some (Panic ''non-positive interval for NewTicker''
         \<lparr>clock = 5, timeoutC = Some 60000000000, tickerC = None,
          transport = bodyRepeater Client None, out = None, world = 1, attempts = 1\<rparr>)"
    by code_simp
next
  fix fuel
  let ?opts = "[WithCondition (Some never), WithTimeout 0]"
  let ?req = "scripted (always (answer 200 ''{}'' 5))"
  show "Do test_runtime fuel ?req None ?opts 0 = None"
  proof (rule Do_polls_forever [where c = never and I = "\<lambda>t w'. True"])
    show "cond (resolve ?opts) = Some never" "timeout (resolve ?opts) \<le> 0"
      "0 < interval (resolve ?opts)"
      by (simp_all add: resolve_def WithCondition_def WithTimeout_def)
    show True ..
    show "\<exists>resp body. a_err (?req t w') = None \<and> a_resp (?req t w') = Some resp
          \<and> \<not> IsError test_runtime resp
          \<and> ReadAll (Body resp) = (body, None) \<and> (\<forall>v. fst (Unmarshal test_runtime body v) = None)
          \<and> \<not> fst (never (resp\<lparr>Body := Reader body None\<rparr>) (a_world (?req t w')))
          \<and> True" for t w'
      by (simp add: scripted_def always_def answer_def test_runtime_def never_def pure_cond_def)
  qed
qed

end
